theory Spec2Isabelle
  imports Main "HOL-Library.Sublist" "HOL-Library.Multiset" "HOL-Library.List_Lexorder"
    "HOL-Library.Product_Lexorder"
begin

section \<open>The dict module of BottyMcBotFace\<close>

text \<open>
  The module keeps \<open>dictData\<close>, an array of entries loaded from a JSON file, sorted by
  \<open>entry\<close> under \<open>localeCompare\<close> with \<open>{ sensitivity: 'accent' }\<close>; lookups are a binary
  search (\<open>getIndexOf\<close>), \<open>/define\<close> appends, re-sorts and flushes, \<open>/index\<close> filters by
  lowercase containment.

  JavaScript strings are sequences of UTF-16 code units. They are modelled as \<^typ>\<open>string\<close>,
  whose characters are read as the code units U+0000 to U+00FF (so \<open>CHR 0xE9\<close> is e with
  an acute accent).
\<close>

subsection \<open>String primitives of the platform\<close>

text \<open>
  \<open>String.prototype.trim\<close> removes white space and line terminators from both ends. In
  the range U+0000 to U+00FF these are TAB, LF, VT, FF, CR, SPACE and NO-BREAK SPACE.
\<close>

definition isWhiteSpace :: "char \<Rightarrow> bool" where
  "isWhiteSpace c \<longleftrightarrow> of_char c \<in> {9, 10, 11, 12, 13, 32, 160 :: nat}"

definition trimStart :: "string \<Rightarrow> string" where
  "trimStart s = dropWhile isWhiteSpace s"

definition trimEnd :: "string \<Rightarrow> string" where
  "trimEnd s = rev (dropWhile isWhiteSpace (rev s))"

definition trim :: "string \<Rightarrow> string" where
  "trim s = trimEnd (trimStart s)"

text \<open>
  \<open>String.prototype.toLowerCase\<close> on the code units U+0000 to U+00FF: the ASCII capitals
  and the Latin-1 capitals U+00C0 to U+00DE (the multiplication sign U+00D7 apart) move up
  by 32; every other code unit stays.
\<close>

definition lowerChar :: "char \<Rightarrow> char" where
  "lowerChar c =
     (let n = of_char c :: nat
      in if (65 \<le> n \<and> n \<le> 90) \<or> (192 \<le> n \<and> n \<le> 222 \<and> n \<noteq> 215)
         then char_of (n + 32) else c)"

definition toLowerCase :: "string \<Rightarrow> string" where
  "toLowerCase s = map lowerChar s"

text \<open>\<open>String.prototype.includes\<close>: does \<open>sub\<close> occur in \<open>s\<close> as a contiguous run.\<close>

fun includes_str :: "string \<Rightarrow> string \<Rightarrow> bool" where
  "includes_str [] sub = (sub = [])"
| "includes_str (c # cs) sub = (prefix sub (c # cs) \<or> includes_str cs sub)"

subsection \<open>Collation\<close>

text \<open>
  \<open>a.localeCompare(b, undefined, { sensitivity: s })\<close> compares under the collation of
  the runtime's default locale. The module fixes neither the locale nor the collation
  data, so the operations below take the collation as a parameter \<open>lc\<close>, and the source's
  call is \<open>lc Accent a b\<close>. The sensitivities are those of ECMA-402:
  \<open>base\<close> (only base letters differ), \<open>accent\<close> (base letters and accents differ, case does
  not), \<open>case\<close> (base letters and case differ), \<open>variant\<close> (all three differ).
\<close>

datatype sensitivity = Base | Accent | Case | Variant

type_synonym collation = "sensitivity \<Rightarrow> string \<Rightarrow> string \<Rightarrow> int"

text \<open>
  A consistent comparator in the sense of \<open>Array.prototype.sort\<close>: reflexive, its sign
  flips when the arguments are swapped, and "sorts before or equal" is transitive.
\<close>

definition consistent :: "('a \<Rightarrow> 'a \<Rightarrow> int) \<Rightarrow> bool" where
  "consistent cmp \<longleftrightarrow>
     (\<forall>a. cmp a a = 0) \<and>
     (\<forall>a b. (cmp a b < 0) = (0 < cmp b a)) \<and>
     (\<forall>a b c. cmp a b \<le> 0 \<and> cmp b c \<le> 0 \<longrightarrow> cmp a c \<le> 0)"

text \<open>
  Modelled, not taken from the source: \<open>latinCompare\<close> stands in for the platform's
  \<open>localeCompare\<close>, whose collation data is not part of the repository. It is a concrete
  collation for the Latin-1 letters, with the three levels of a collation element: the
  base letter (primary), the diacritic (secondary) and the case (tertiary). Strings are
  compared on the primary level first, and on a further level only when all levels before
  it are equal; the sensitivity selects the levels that take part.

  It is not the platform's collation: the order it gives to punctuation, digits and
  diacritics, and what it compares equal outside the letters A to Z, a to z and the
  accented letters of \<open>accentTable\<close> (for instance U+00AA against \<open>a\<close>), can differ from
  the runtime's. It serves only as one consistent comparator at which the general
  theorems, stated for every collation \<open>lc\<close>, are instantiated, and for the worked
  examples, whose names are made of those letters. No general property of the platform
  is drawn from it.
\<close>

definition isLatinCapital :: "char \<Rightarrow> bool" where
  "isLatinCapital c \<longleftrightarrow>
     (let n = of_char c :: nat
      in (65 \<le> n \<and> n \<le> 90) \<or> (192 \<le> n \<and> n \<le> 222 \<and> n \<noteq> 215))"

text \<open>
  The accented small letters of Latin-1 with their base letter and diacritic
  (1 grave, 2 acute, 3 circumflex, 4 tilde, 5 diaeresis, 6 ring, 7 cedilla).
\<close>

definition accentTable :: "(nat \<times> nat \<times> nat) list" where
  "accentTable =
     [(224, 97, 1), (225, 97, 2), (226, 97, 3), (227, 97, 4), (228, 97, 5), (229, 97, 6),
      (231, 99, 7),
      (232, 101, 1), (233, 101, 2), (234, 101, 3), (235, 101, 5),
      (236, 105, 1), (237, 105, 2), (238, 105, 3), (239, 105, 5),
      (241, 110, 4),
      (242, 111, 1), (243, 111, 2), (244, 111, 3), (245, 111, 4), (246, 111, 5),
      (249, 117, 1), (250, 117, 2), (251, 117, 3), (252, 117, 5),
      (253, 121, 2), (255, 121, 5)]"

definition collationElement :: "char \<Rightarrow> nat \<times> nat \<times> nat" where
  "collationElement c =
     (let n = of_char (lowerChar c) :: nat;
          t = (if isLatinCapital c then 1 else 0)
      in case map_of accentTable n of
           Some (b, a) \<Rightarrow> (b, a, t)
         | None \<Rightarrow> (n, 0, t))"

definition primaryKey :: "string \<Rightarrow> nat list" where
  "primaryKey s = map (\<lambda>c. fst (collationElement c)) s"

definition secondaryKey :: "string \<Rightarrow> nat list" where
  "secondaryKey s = map (\<lambda>c. fst (snd (collationElement c))) s"

definition tertiaryKey :: "string \<Rightarrow> nat list" where
  "tertiaryKey s = map (\<lambda>c. snd (snd (collationElement c))) s"

definition sortKey :: "sensitivity \<Rightarrow> string \<Rightarrow> nat list \<times> nat list \<times> nat list" where
  "sortKey sens s =
     (case sens of
        Base \<Rightarrow> (primaryKey s, [], [])
      | Accent \<Rightarrow> (primaryKey s, secondaryKey s, [])
      | Case \<Rightarrow> (primaryKey s, [], tertiaryKey s)
      | Variant \<Rightarrow> (primaryKey s, secondaryKey s, tertiaryKey s))"

definition latinCompare :: collation where
  "latinCompare sens a b =
     (if sortKey sens a < sortKey sens b then - 1
      else if sortKey sens a = sortKey sens b then 0 else 1)"

subsection \<open>Array.prototype.sort\<close>

text \<open>
  \<open>Array.prototype.sort\<close> is a stable sort. Under a consistent comparator the result of a
  stable sort is determined by the input, so it is modelled by the stable insertion sort:
  elements are taken from the right, and each goes before the first element that does not
  sort before it.
\<close>

fun insertSorted :: "('a \<Rightarrow> 'a \<Rightarrow> int) \<Rightarrow> 'a \<Rightarrow> 'a list \<Rightarrow> 'a list" where
  "insertSorted cmp x [] = [x]"
| "insertSorted cmp x (y # ys) =
     (if cmp x y \<le> 0 then x # y # ys else y # insertSorted cmp x ys)"

definition arraySort :: "('a \<Rightarrow> 'a \<Rightarrow> int) \<Rightarrow> 'a list \<Rightarrow> 'a list" where
  "arraySort cmp xs = foldr (insertSorted cmp) xs []"

subsection \<open>The store\<close>

text \<open>
  An element of \<open>dictData\<close>: an object with the string properties \<open>author\<close>, \<open>entry\<close> and
  \<open>definition\<close> (the last is named \<open>definitionText\<close> here).
\<close>

record dict_entry =
  author :: string
  entry :: string
  definitionText :: string

text \<open>
  The module state: the array \<open>dictData\<close>, and the file writes that \<open>flushDictData\<close> has
  issued, each with the array it serialised (\<open>JSON.stringify\<close> runs before \<open>fs.writeFile\<close>
  is started; the write itself is not awaited).
\<close>

record dict_state =
  dictData :: "dict_entry list"
  flushed :: "dict_entry list list"

text \<open>
  What a handler reads of a Discord interaction: the values of \<open>interaction.options.data\<close>
  and \<open>interaction.user.username\<close>.
\<close>

record interaction =
  options :: "string list"
  username :: string

datatype outcome = Reply string | ErrorLogged

text \<open>
  An object literal, as the list of its properties; reading a property that is absent
  gives \<open>undefined\<close>, which a template literal prints as the text \<open>undefined\<close>.
\<close>

type_synonym js_object = "(string \<times> string) list"

definition propertyText :: "js_object \<Rightarrow> string \<Rightarrow> string" where
  "propertyText obj key = (case map_of obj key of Some v \<Rightarrow> v | None \<Rightarrow> ''undefined'')"

subsection \<open>Sorting and flushing\<close>

definition entryCompare :: "collation \<Rightarrow> dict_entry \<Rightarrow> dict_entry \<Rightarrow> int" where
  "entryCompare lc a b = lc Accent (entry a) (entry b)"

definition sortDictData :: "collation \<Rightarrow> dict_state \<Rightarrow> dict_state" where
  "sortDictData lc st = st\<lparr>dictData := arraySort (entryCompare lc) (dictData st)\<rparr>"

definition init :: "collation \<Rightarrow> dict_state \<Rightarrow> dict_state" where
  "init lc st = sortDictData lc st"

definition getDictDataEntryCount :: "dict_state \<Rightarrow> nat" where
  "getDictDataEntryCount st = length (dictData st)"

definition flushDictData :: "dict_state \<Rightarrow> dict_state" where
  "flushDictData st = st\<lparr>flushed := flushed st @ [dictData st]\<rparr>"

subsection \<open>Binary search\<close>

text \<open>
  One pass through the body of the \<open>while\<close> loop of \<open>getIndexOf\<close>, entered with
  \<open>start \<le> end\<close>: it returns \<open>middle\<close>, or goes on with a new \<open>start\<close> or \<open>end\<close>. Reading
  \<open>array[middle]\<close> outside the array gives \<open>undefined\<close>, on which the comparator of
  \<open>findDictionaryEntry\<close> raises (\<open>x.entry\<close>); that is \<open>Throw\<close>.
\<close>

datatype step = Return int | Continue int int | Throw

definition getIndexOf_body ::
    "'a list \<Rightarrow> 't \<Rightarrow> ('a \<Rightarrow> 't \<Rightarrow> int) \<Rightarrow> int \<Rightarrow> int \<Rightarrow> step" where
  "getIndexOf_body array target compareFunc start end' =
     (let middle = (start + end') div 2
      in if 0 \<le> middle \<and> middle < int (length array) then
           (let result = compareFunc (array ! nat middle) target
            in if result = 0 then Return middle
               else if result < 0 then Continue (middle + 1) end'
               else Continue start (middle - 1))
         else Throw)"

function getIndexOf_loop ::
    "'a list \<Rightarrow> 't \<Rightarrow> ('a \<Rightarrow> 't \<Rightarrow> int) \<Rightarrow> int \<Rightarrow> int \<Rightarrow> step" where
  "getIndexOf_loop array target compareFunc start end' =
     (if start \<le> end' then
        (case getIndexOf_body array target compareFunc start end' of
           Continue start' end'' \<Rightarrow> getIndexOf_loop array target compareFunc start' end''
         | r \<Rightarrow> r)
      else Return (- 1))"
  by pat_completeness auto
termination
proof (relation "measure (\<lambda>(array, target, compareFunc, start, end'). nat (end' - start + 1))")
  show "wf (measure (\<lambda>(array :: 'a list, target :: 't, compareFunc :: 'a \<Rightarrow> 't \<Rightarrow> int,
      start, end'). nat (end' - start + 1)))"
    by simp
next
  fix array :: "'a list" and target :: 't and compareFunc :: "'a \<Rightarrow> 't \<Rightarrow> int"
    and start end' start' end'' :: int
  assume "start \<le> end'"
    and "getIndexOf_body array target compareFunc start end' = Continue start' end''"
  then have "end'' - start' < end' - start"
    by (auto simp add: getIndexOf_body_def Let_def split: if_splits)
  with \<open>start \<le> end'\<close>
  show "((array, target, compareFunc, start', end''), (array, target, compareFunc, start, end'))
      \<in> measure (\<lambda>(array, target, compareFunc, start, end'). nat (end' - start + 1))"
    by simp
qed

text \<open>
  \<open>getIndexOf\<close>: the loop from \<open>start = 0\<close>, \<open>end = array.length - 1\<close>. An exception is
  caught and logged, and the function then returns \<open>-1\<close>, as it does when the loop ends.
\<close>

definition getIndexOf :: "'a list \<Rightarrow> 't \<Rightarrow> ('a \<Rightarrow> 't \<Rightarrow> int) \<Rightarrow> int" where
  "getIndexOf array target compareFunc =
     (case getIndexOf_loop array target compareFunc 0 (int (length array) - 1) of
        Return i \<Rightarrow> i
      | _ \<Rightarrow> - 1)"

text \<open>
  \<open>findDictionaryEntry\<close> returns the object \<open>{ "author": ..., "definition": ... }\<close>, or
  \<open>null\<close> (here \<open>None\<close>); reading \<open>dictData[result]\<close> outside the array raises on \<open>.author\<close>,
  which is caught, and the function returns \<open>null\<close>.
\<close>

definition findDictionaryEntry :: "collation \<Rightarrow> dict_entry list \<Rightarrow> string \<Rightarrow> js_object option" where
  "findDictionaryEntry lc data entryName =
     (let result = getIndexOf data entryName (\<lambda>x y. lc Accent (entry x) y)
      in if result \<noteq> - 1 then
           (if 0 \<le> result \<and> result < int (length data)
            then Some [(''author'', author (data ! nat result)),
                       (''definition'', definitionText (data ! nat result))]
            else None)
         else None)"

subsection \<open>The command handlers\<close>

text \<open>\<open>/dict\<close>: look a phrase up.\<close>

definition handleDictCommand :: "collation \<Rightarrow> interaction \<Rightarrow> dict_state \<Rightarrow> outcome" where
  "handleDictCommand lc interaction st =
     (if length (options interaction) < 1 then ErrorLogged
      else
        (let dictRequested = trim (options interaction ! 0)
         in if dictRequested = [] then Reply ''DICT entry for what, /dict WHAT''
            else
              (case findDictionaryEntry lc (dictData st) dictRequested of
                 Some result \<Rightarrow>
                   Reply (''**DICT:** **'' @ dictRequested @ ''** = ''
                          @ propertyText result ''definition''
                          @ '' [added by: '' @ propertyText result ''author'' @ '']'')
               | None \<Rightarrow> Reply (''**DICT:** No definition for '' @ dictRequested))))"

text \<open>
  \<open>/define\<close>: add a phrase unless the lookup finds one. The reply to a phrase that exists
  reads \<open>existingEntry[1]\<close> and \<open>existingEntry[0]\<close> of the object that
  \<open>findDictionaryEntry\<close> returned.
\<close>

definition handleDefineCommand ::
    "collation \<Rightarrow> interaction \<Rightarrow> dict_state \<Rightarrow> outcome \<times> dict_state" where
  "handleDefineCommand lc interaction st =
     (if length (options interaction) < 1 then (ErrorLogged, st)
      else if length (options interaction) < 2 then
        (Reply ''Missing entries for define command, need phrase and definiton plzsir'', st)
      else
        (let entryName = trim (options interaction ! 0);
             definition' = trim (options interaction ! 1);
             existingEntry = findDictionaryEntry lc (dictData st) entryName
         in case existingEntry of
              None \<Rightarrow>
                (let newEntry = \<lparr>author = username interaction, entry = entryName,
                                  definitionText = definition'\<rparr>;
                     st1 = st\<lparr>dictData := dictData st @ [newEntry]\<rparr>;
                     st2 = sortDictData lc st1;
                     st3 = flushDictData st2
                 in (Reply (''**DICT:** Definition for '' @ entryName @ '' added successfully.''),
                     st3))
            | Some existing \<Rightarrow>
                (Reply (''**DICT:** Definition for '' @ entryName @ '' already exists as: ''
                        @ propertyText existing ''1'' @ '' by '' @ propertyText existing ''0''),
                 st)))"

text \<open>
  \<open>/index\<close>: the entries whose lowercased definition includes the trimmed, lowercased
  search string, and the reply that lists their names.
\<close>

definition indexMatches :: "dict_entry list \<Rightarrow> string \<Rightarrow> dict_entry list" where
  "indexMatches data search_string =
     filter (\<lambda>e. includes_str (toLowerCase (definitionText e)) search_string) data"

definition indexOutput :: "dict_entry list \<Rightarrow> string \<Rightarrow> string" where
  "indexOutput matches search_string =
     (if length matches > 0 then
        foldl (\<lambda>outputString i.
                 (if i > 0 then outputString @ '', '' else outputString)
                 @ [CHR 0x22] @ entry (matches ! i) @ [CHR 0x22])
              (''Search string '' @ search_string @ '' found in entries: '')
              [0 ..< length matches]
      else ''Search string '' @ search_string @ '' not found in entries.'')"

definition handleIndexCommand :: "interaction \<Rightarrow> dict_state \<Rightarrow> outcome" where
  "handleIndexCommand interaction st =
     (if length (options interaction) < 1 then ErrorLogged
      else
        (let search_string = toLowerCase (trim (options interaction ! 0));
             matches = indexMatches (dictData st) search_string
         in Reply (indexOutput matches search_string)))"

subsection \<open>The module as a whole\<close>

text \<open>
  Loading the module reads the file into \<open>dictData\<close> and calls \<open>Dict.init()\<close>; after that
  the registered commands run one at a time against the state.
\<close>

definition loadModule :: "collation \<Rightarrow> dict_entry list \<Rightarrow> dict_state" where
  "loadModule lc fileData = init lc \<lparr>dictData = fileData, flushed = []\<rparr>"

datatype command = Init | Dict interaction | Define interaction | Index interaction

fun exec :: "collation \<Rightarrow> dict_state \<Rightarrow> command \<Rightarrow> dict_state" where
  "exec lc st Init = init lc st"
| "exec lc st (Dict i) = st"
| "exec lc st (Define i) = snd (handleDefineCommand lc i st)"
| "exec lc st (Index i) = st"

definition run :: "collation \<Rightarrow> command list \<Rightarrow> dict_state \<Rightarrow> dict_state" where
  "run lc cmds st = foldl (exec lc) st cmds"

text \<open>Sorted ascending by the comparator on the entry names.\<close>

definition sortedStore :: "collation \<Rightarrow> dict_entry list \<Rightarrow> bool" where
  "sortedStore lc data = sorted_wrt (\<lambda>a b. lc Accent (entry a) (entry b) \<le> 0) data"

text \<open>
  What binary search needs of the array: along it, the sign of the comparison with the
  target never goes down.
\<close>

definition signMonotone :: "'a list \<Rightarrow> 't \<Rightarrow> ('a \<Rightarrow> 't \<Rightarrow> int) \<Rightarrow> bool" where
  "signMonotone array target cf \<longleftrightarrow>
     (\<forall>i j. i \<le> j \<and> j < length array \<longrightarrow>
        (cf (array ! j) target < 0 \<longrightarrow> cf (array ! i) target < 0) \<and>
        (0 < cf (array ! i) target \<longrightarrow> 0 < cf (array ! j) target))"

subsection \<open>The specified binary search\<close>

text \<open>
  The binary search as the specification words it: \<open>start = 0\<close>, \<open>end = n - 1\<close>; while
  \<open>start \<le> end\<close>, \<open>middle = floor((start + end) / 2)\<close>; an equal comparison returns
  \<open>middle\<close>, an entry that sorts before the target moves \<open>start\<close> to \<open>middle + 1\<close>, any
  other moves \<open>end\<close> to \<open>middle - 1\<close>; an exhausted range is not-found (\<open>None\<close>).
\<close>

function specBinarySearch :: "'a list \<Rightarrow> ('a \<Rightarrow> int) \<Rightarrow> int \<Rightarrow> int \<Rightarrow> int option" where
  "specBinarySearch entries cmp start end' =
     (if start \<le> end' then
        (let middle = (start + end') div 2;
             c = cmp (entries ! nat middle)
         in if c = 0 then Some middle
            else if c < 0 then specBinarySearch entries cmp (middle + 1) end'
            else specBinarySearch entries cmp start (middle - 1))
      else None)"
  by pat_completeness auto
termination
  by (relation "measure (\<lambda>(entries, cmp, start, end'). nat (end' - start + 1))") auto

section \<open>Properties\<close>

subsection \<open>Consistent comparators and the sort\<close>


lemma consistent_refl: "consistent cmp \<Longrightarrow> cmp a a = 0"
  by (simp add: consistent_def)

lemma consistent_flip: "consistent cmp \<Longrightarrow> (cmp a b < 0) = (0 < cmp b a)"
  by (simp add: consistent_def)

lemma consistent_total: "consistent cmp \<Longrightarrow> cmp a b \<le> 0 \<or> cmp b a \<le> 0"
  using consistent_flip [of cmp a b] by linarith

lemma consistent_eq_sym: "consistent cmp \<Longrightarrow> (cmp a b = 0) = (cmp b a = 0)"
  using consistent_flip [of cmp a b] consistent_flip [of cmp b a] by linarith

lemma consistent_trans:
  "consistent cmp \<Longrightarrow> cmp a b \<le> 0 \<Longrightarrow> cmp b c \<le> 0 \<Longrightarrow> cmp a c \<le> 0"
  unfolding consistent_def by blast

lemma consistent_le_less:
  assumes c: "consistent cmp" and ab: "cmp a b \<le> 0" and bc: "cmp b c < 0"
  shows "cmp a c < 0"
proof (rule ccontr)
  assume "\<not> cmp a c < 0"
  then have "cmp c a \<le> 0" using consistent_flip [OF c, of a c] by linarith
  with ab have "cmp c b \<le> 0" using consistent_trans [OF c] by blast
  then show False using bc consistent_flip [OF c, of b c] by linarith
qed

lemma consistent_less_le:
  assumes c: "consistent cmp" and ab: "cmp a b < 0" and bc: "cmp b c \<le> 0"
  shows "cmp a c < 0"
proof (rule ccontr)
  assume "\<not> cmp a c < 0"
  then have "cmp c a \<le> 0" using consistent_flip [OF c, of a c] by linarith
  with bc have "cmp b a \<le> 0" using consistent_trans [OF c] by blast
  then show False using ab consistent_flip [OF c, of a b] by linarith
qed

lemma set_insertSorted: "set (insertSorted cmp x xs) = insert x (set xs)"
  by (induction xs) auto

lemma length_insertSorted: "length (insertSorted cmp x xs) = Suc (length xs)"
  by (induction xs) auto

lemma mset_insertSorted: "mset (insertSorted cmp x xs) = add_mset x (mset xs)"
  by (induction xs) auto

lemma sorted_insertSorted:
  assumes c: "consistent cmp"
  shows "sorted_wrt (\<lambda>a b. cmp a b \<le> 0) xs \<Longrightarrow>
    sorted_wrt (\<lambda>a b. cmp a b \<le> 0) (insertSorted cmp x xs)"
proof (induction xs)
  case Nil
  then show ?case by simp
next
  case (Cons y ys)
  show ?case
  proof (cases "cmp x y \<le> 0")
    case True
    then have "\<forall>z\<in>set ys. cmp x z \<le> 0"
      using Cons.prems consistent_trans [OF c] by auto
    with True Cons.prems show ?thesis by simp
  next
    case False
    then have "cmp y x \<le> 0" using consistent_total [OF c, of x y] by simp
    with False Cons show ?thesis by (auto simp add: set_insertSorted)
  qed
qed

lemma sorted_arraySort:
  "consistent cmp \<Longrightarrow> sorted_wrt (\<lambda>a b. cmp a b \<le> 0) (arraySort cmp xs)"
  unfolding arraySort_def by (induction xs) (simp_all add: sorted_insertSorted)

lemma mset_arraySort: "mset (arraySort cmp xs) = mset xs"
  unfolding arraySort_def by (induction xs) (simp_all add: mset_insertSorted)

lemma set_arraySort: "set (arraySort cmp xs) = set xs"
  using mset_arraySort [of cmp xs] by (metis set_mset_mset)

lemma length_arraySort: "length (arraySort cmp xs) = length xs"
  using mset_arraySort [of cmp xs] by (metis size_mset)

lemma arraySort_sorted_id:
  "sorted_wrt (\<lambda>a b. cmp a b \<le> 0) xs \<Longrightarrow> arraySort cmp xs = xs"
proof (induction xs)
  case Nil
  then show ?case by (simp add: arraySort_def)
next
  case (Cons x xs)
  then have "arraySort cmp xs = xs" by simp
  then have "arraySort cmp (x # xs) = insertSorted cmp x xs" by (simp add: arraySort_def)
  also have "\<dots> = x # xs" using Cons.prems by (cases xs) auto
  finally show ?case .
qed


lemma getIndexOf_body_cases:
  assumes "0 \<le> start" "end' \<le> int (length array) - 1" "start \<le> end'"
  obtains
    (found) m where "getIndexOf_body array target cf start end' = Return m"
      "m = (start + end') div 2" "start \<le> m" "m \<le> end'" "cf (array ! nat m) target = 0"
  | (right) m where "getIndexOf_body array target cf start end' = Continue (m + 1) end'"
      "m = (start + end') div 2" "start \<le> m" "m \<le> end'" "cf (array ! nat m) target < 0"
  | (left) m where "getIndexOf_body array target cf start end' = Continue start (m - 1)"
      "m = (start + end') div 2" "start \<le> m" "m \<le> end'" "0 < cf (array ! nat m) target"
proof -
  define m where "m = (start + end') div 2"
  have m: "start \<le> m" "m \<le> end'" using assms(3) by (simp_all add: m_def)
  then have inb: "0 \<le> m \<and> m < int (length array)" using assms(1,2) by simp
  consider "cf (array ! nat m) target = 0" | "cf (array ! nat m) target < 0"
    | "0 < cf (array ! nat m) target" by linarith
  then show thesis
  proof cases
    case 1
    with inb have "getIndexOf_body array target cf start end' = Return m"
      by (simp add: getIndexOf_body_def m_def [symmetric])
    then show thesis using found m 1 m_def by blast
  next
    case 2
    with inb have "getIndexOf_body array target cf start end' = Continue (m + 1) end'"
      by (simp add: getIndexOf_body_def m_def [symmetric])
    then show thesis using right m 2 m_def by blast
  next
    case 3
    with inb have "getIndexOf_body array target cf start end' = Continue start (m - 1)"
      by (simp add: getIndexOf_body_def m_def [symmetric])
    then show thesis using left m 3 m_def by blast
  qed
qed

lemma getIndexOf_loop_result:
  "0 \<le> start \<Longrightarrow> end' \<le> int (length array) - 1 \<Longrightarrow>
   \<exists>r. getIndexOf_loop array target cf start end' = Return r \<and>
     (r = - 1 \<or> (start \<le> r \<and> r \<le> end' \<and> cf (array ! nat r) target = 0))"
proof (induction array target cf start end' rule: getIndexOf_loop.induct)
  case (1 array target cf start end')
  show ?case
  proof (cases "start \<le> end'")
    case False
    then show ?thesis by simp
  next
    case True
    from "1.prems" True show ?thesis
    proof (cases rule: getIndexOf_body_cases [where target = target and cf = cf])
      case (found m)
      with True show ?thesis by simp
    next
      case (right m)
      have "\<exists>r. getIndexOf_loop array target cf (m + 1) end' = Return r \<and>
         (r = - 1 \<or> (m + 1 \<le> r \<and> r \<le> end' \<and> cf (array ! nat r) target = 0))"
        using "1.IH" [OF True right(1)] "1.prems" right(3) by simp
      with True right show ?thesis by auto
    next
      case (left m)
      have "\<exists>r. getIndexOf_loop array target cf start (m - 1) = Return r \<and>
         (r = - 1 \<or> (start \<le> r \<and> r \<le> m - 1 \<and> cf (array ! nat r) target = 0))"
        using "1.IH" [OF True left(1)] "1.prems" left(4) by simp
      with True left show ?thesis by auto
    qed
  qed
qed

lemma getIndexOf_loop_miss:
  "signMonotone array target cf \<Longrightarrow> 0 \<le> start \<Longrightarrow> end' \<le> int (length array) - 1 \<Longrightarrow>
   getIndexOf_loop array target cf start end' = Return (- 1) \<Longrightarrow>
   start \<le> int i \<Longrightarrow> int i \<le> end' \<Longrightarrow> cf (array ! i) target \<noteq> 0"
proof (induction array target cf start end' rule: getIndexOf_loop.induct)
  case (1 array target cf start end')
  note mono = "1.prems"(1) and lo = "1.prems"(2) and hi = "1.prems"(3)
    and res = "1.prems"(4) and il = "1.prems"(5) and ih = "1.prems"(6)
  have True: "start \<le> end'" using il ih by simp
  have ilen: "i < length array" using hi ih by simp
  from lo hi True show ?case
  proof (cases rule: getIndexOf_body_cases [where target = target and cf = cf])
    case (found m)
    with True res have "m = - 1" by simp
    with found(3) lo show ?thesis by simp
  next
    case (right m)
    have loop: "getIndexOf_loop array target cf (m + 1) end' = Return (- 1)"
      using res True right(1) by simp
    show ?thesis
    proof (cases "int i \<le> m")
      case True
      have "nat m < length array" using right(4) lo hi right(3) by simp
      moreover have "i \<le> nat m" using True by simp
      ultimately have "cf (array ! i) target < 0"
        using mono right(5) unfolding signMonotone_def by blast
      then show ?thesis by simp
    next
      case False
      then show ?thesis
        using "1.IH" [OF \<open>start \<le> end'\<close> right(1) mono _ hi loop _ ih] lo right(3) by simp
    qed
  next
    case (left m)
    have loop: "getIndexOf_loop array target cf start (m - 1) = Return (- 1)"
      using res True left(1) by simp
    show ?thesis
    proof (cases "m \<le> int i")
      case True
      have "nat m \<le> i" using True by simp
      then have "0 < cf (array ! i) target"
        using mono left(5) ilen unfolding signMonotone_def by blast
      then show ?thesis by simp
    next
      case False
      then show ?thesis
        using "1.IH" [OF \<open>start \<le> end'\<close> left(1) mono lo _ loop il] hi left(4) by simp
    qed
  qed
qed

subsection \<open>Binary search and lookup\<close>

lemma latinCompare_consistent: "consistent (latinCompare sens)"
  unfolding consistent_def latinCompare_def by auto

lemma sorted_signMonotone:
  assumes c: "consistent (lc Accent)" and s: "sortedStore lc data"
  shows "signMonotone data target (\<lambda>x y. lc Accent (entry x) y)"
  unfolding signMonotone_def
proof (intro allI impI conjI)
  fix i j
  assume ij: "i \<le> j \<and> j < length data"
  have le: "lc Accent (entry (data ! i)) (entry (data ! j)) \<le> 0"
  proof (cases "i = j")
    case True
    then show ?thesis using consistent_refl [OF c] by simp
  next
    case False
    with ij have "i < j" "j < length data" by simp_all
    then show ?thesis using s sorted_wrt_nth_less unfolding sortedStore_def by blast
  qed
  {
    assume "lc Accent (entry (data ! j)) target < 0"
    with le show "lc Accent (entry (data ! i)) target < 0"
      using consistent_le_less [OF c] by blast
  }
  {
    assume "0 < lc Accent (entry (data ! i)) target"
    then have "lc Accent target (entry (data ! i)) < 0"
      using consistent_flip [OF c] by simp
    with le have "lc Accent target (entry (data ! j)) < 0"
      using consistent_less_le [OF c] by blast
    then show "0 < lc Accent (entry (data ! j)) target"
      using consistent_flip [OF c] by simp
  }
qed

lemma getIndexOf_range:
  "getIndexOf array target cf = - 1 \<or>
   (0 \<le> getIndexOf array target cf \<and> getIndexOf array target cf < int (length array) \<and>
    cf (array ! nat (getIndexOf array target cf)) target = 0)"
proof -
  obtain r where r: "getIndexOf_loop array target cf 0 (int (length array) - 1) = Return r"
    "r = - 1 \<or> (0 \<le> r \<and> r \<le> int (length array) - 1 \<and> cf (array ! nat r) target = 0)"
    using getIndexOf_loop_result [of 0 "int (length array) - 1" array target cf] by auto
  then show ?thesis by (auto simp add: getIndexOf_def)
qed

lemma getIndexOf_miss:
  assumes "signMonotone array target cf" "getIndexOf array target cf = - 1" "i < length array"
  shows "cf (array ! i) target \<noteq> 0"
proof -
  obtain r where r: "getIndexOf_loop array target cf 0 (int (length array) - 1) = Return r"
    using getIndexOf_loop_result [of 0 "int (length array) - 1" array target cf] by auto
  with assms(2) have "r = - 1" by (simp add: getIndexOf_def)
  with r have l: "getIndexOf_loop array target cf 0 (int (length array) - 1) = Return (- 1)"
    by simp
  have a: "(0::int) \<le> 0" and b: "int (length array) - 1 \<le> int (length array) - 1"
    and c: "0 \<le> int i" and d: "int i \<le> int (length array) - 1"
    using assms(3) by simp_all
  show ?thesis by (rule getIndexOf_loop_miss [OF assms(1) a b l c d])
qed

lemma findDictionaryEntry_Some:
  assumes "findDictionaryEntry lc data name = Some obj"
  shows "\<exists>e \<in> set data. lc Accent (entry e) name = 0 \<and>
    obj = [(''author'', author e), (''definition'', definitionText e)]"
proof -
  let ?r = "getIndexOf data name (\<lambda>x y. lc Accent (entry x) y)"
  from assms have r: "?r \<noteq> - 1" "0 \<le> ?r" "?r < int (length data)"
    and obj: "obj = [(''author'', author (data ! nat ?r)),
                      (''definition'', definitionText (data ! nat ?r))]"
    by (auto simp add: findDictionaryEntry_def Let_def split: if_splits)
  from r have "lc Accent (entry (data ! nat ?r)) name = 0"
    using getIndexOf_range [of data name "\<lambda>x y. lc Accent (entry x) y"] by simp
  moreover have "data ! nat ?r \<in> set data" using r by simp
  ultimately show ?thesis using obj by blast
qed

lemma findDictionaryEntry_None_absent:
  assumes "\<forall>e \<in> set data. lc Accent (entry e) name \<noteq> 0"
  shows "findDictionaryEntry lc data name = None"
proof (cases "findDictionaryEntry lc data name")
  case None
  then show ?thesis .
next
  case (Some obj)
  then show ?thesis using findDictionaryEntry_Some [OF Some] assms by blast
qed

lemma findDictionaryEntry_None_sorted:
  assumes c: "consistent (lc Accent)" and s: "sortedStore lc data"
    and n: "findDictionaryEntry lc data name = None" and e: "e \<in> set data"
  shows "lc Accent (entry e) name \<noteq> 0"
proof -
  let ?cf = "\<lambda>x y. lc Accent (entry x) y"
  have "getIndexOf data name ?cf = - 1"
    using n getIndexOf_range [of data name ?cf]
    by (auto simp add: findDictionaryEntry_def Let_def split: if_splits)
  moreover obtain i where "i < length data" "data ! i = e" using e by (auto simp add: in_set_conv_nth)
  ultimately show ?thesis
    using getIndexOf_miss [OF sorted_signMonotone [OF c s, of name]] by blast
qed

lemma getIndexOf_loop_refines:
  "0 \<le> start \<Longrightarrow> end' \<le> int (length array) - 1 \<Longrightarrow>
   getIndexOf_loop array target cf start end' =
     (case specBinarySearch array (\<lambda>x. cf x target) start end' of
        Some m \<Rightarrow> Return m | None \<Rightarrow> Return (- 1))"
proof (induction array target cf start end' rule: getIndexOf_loop.induct)
  case (1 array target cf start end')
  show ?case
  proof (cases "start \<le> end'")
    case False
    then show ?thesis by simp
  next
    case True
    from "1.prems" True show ?thesis
    proof (cases rule: getIndexOf_body_cases [where target = target and cf = cf])
      case (found m)
      have "specBinarySearch array (\<lambda>x. cf x target) start end' = Some m"
        using True found(2,5) by (subst specBinarySearch.simps) (simp add: Let_def)
      with True found(1) show ?thesis by simp
    next
      case (right m)
      have "specBinarySearch array (\<lambda>x. cf x target) start end' =
          specBinarySearch array (\<lambda>x. cf x target) (m + 1) end'"
        using True right(2,5) by (subst specBinarySearch.simps) (simp add: Let_def)
      moreover have "getIndexOf_loop array target cf (m + 1) end' =
          (case specBinarySearch array (\<lambda>x. cf x target) (m + 1) end' of
             Some m \<Rightarrow> Return m | None \<Rightarrow> Return (- 1))"
        using "1.IH" [OF True right(1)] "1.prems" right(3) by simp
      ultimately show ?thesis using True right(1) by simp
    next
      case (left m)
      have "specBinarySearch array (\<lambda>x. cf x target) start end' =
          specBinarySearch array (\<lambda>x. cf x target) start (m - 1)"
        using True left(2,5) by (subst specBinarySearch.simps) (simp add: Let_def)
      moreover have "getIndexOf_loop array target cf start (m - 1) =
          (case specBinarySearch array (\<lambda>x. cf x target) start (m - 1) of
             Some m \<Rightarrow> Return m | None \<Rightarrow> Return (- 1))"
        using "1.IH" [OF True left(1)] "1.prems" left(4) by simp
      ultimately show ?thesis using True left(1) by simp
    qed
  qed
qed

subsection \<open>Evaluation and small stores\<close>

lemmas collation_eval = latinCompare_def sortKey_def primaryKey_def secondaryKey_def
  tertiaryKey_def collationElement_def lowerChar_def isLatinCapital_def accentTable_def Let_def

lemma consistent_entryCompare: "consistent (lc Accent) \<Longrightarrow> consistent (entryCompare lc)"
  unfolding consistent_def entryCompare_def by blast

lemma sortedStore_entryCompare:
  "sortedStore lc data = sorted_wrt (\<lambda>a b. entryCompare lc a b \<le> 0) data"
  by (simp add: sortedStore_def entryCompare_def)

lemma sorted_sortDictData:
  "consistent (lc Accent) \<Longrightarrow> sortedStore lc (dictData (sortDictData lc st))"
  by (simp add: sortDictData_def sortedStore_entryCompare sorted_arraySort consistent_entryCompare)

lemma sortDictData_sorted_id: "sortedStore lc (dictData st) \<Longrightarrow> sortDictData lc st = st"
  by (simp add: sortDictData_def sortedStore_entryCompare arraySort_sorted_id)

lemma getIndexOf_Nil: "getIndexOf [] target cf = - 1"
  by (simp add: getIndexOf_def)

lemma getIndexOf_single:
  "getIndexOf [e] target cf = (if cf e target = 0 then 0 else - 1)"
  by (simp add: getIndexOf_def getIndexOf_body_def)

lemma findDictionaryEntry_Nil: "findDictionaryEntry lc [] target = None"
  by (simp add: findDictionaryEntry_def getIndexOf_Nil)

lemma findDictionaryEntry_single:
  "findDictionaryEntry lc [e] target =
     (if lc Accent (entry e) target = 0
      then Some [(''author'', author e), (''definition'', definitionText e)] else None)"
  by (simp add: findDictionaryEntry_def getIndexOf_single)

section \<open>Properties of the specification\<close>

text \<open>
  C10. In \<open>getIndexOf\<close>, on any array (sorted or not) and with any comparator, an iteration
  entered with \<open>0 \<le> start\<close>, \<open>end \<le> length - 1\<close> and \<open>start \<le> end\<close> computes a \<open>middle\<close>
  inside the array, so the read of \<open>array[middle]\<close> is in bounds and nothing is raised; if
  the loop goes on, the new \<open>start\<close> and \<open>end\<close> satisfy the same bounds and \<open>end - start\<close>
  is strictly smaller. The bounds hold at the loop's entry, so the whole loop never reads
  outside the array; it is a total function, its recursion being justified by that
  decreasing measure.
\<close>

theorem getIndexOf_memory_safe:
  "(0 \<le> start \<and> end' \<le> int (length array) - 1 \<and> start \<le> end' \<longrightarrow>
      0 \<le> (start + end') div 2 \<and> (start + end') div 2 < int (length array) \<and>
      getIndexOf_body array target cf start end' \<noteq> Throw \<and>
      (\<forall>s e. getIndexOf_body array target cf start end' = Continue s e \<longrightarrow>
         0 \<le> s \<and> e \<le> int (length array) - 1 \<and> e - s < end' - start)) \<and>
   (0 \<le> start \<and> end' \<le> int (length array) - 1 \<longrightarrow>
      getIndexOf_loop array target cf start end' \<noteq> Throw) \<and>
   getIndexOf_loop array target cf 0 (int (length array) - 1) \<noteq> Throw"
proof (intro conjI impI)
  assume a: "0 \<le> start \<and> end' \<le> int (length array) - 1 \<and> start \<le> end'"
  then show "0 \<le> (start + end') div 2" by simp
  from a have "(start + end') div 2 \<le> end'" by linarith
  with a show m: "(start + end') div 2 < int (length array)" by linarith
  from a m show "getIndexOf_body array target cf start end' \<noteq> Throw"
    by (simp add: getIndexOf_body_def Let_def)
  from a m show "\<forall>s e. getIndexOf_body array target cf start end' = Continue s e \<longrightarrow>
         0 \<le> s \<and> e \<le> int (length array) - 1 \<and> e - s < end' - start"
    by (auto simp add: getIndexOf_body_def Let_def split: if_splits)
next
  assume "0 \<le> start \<and> end' \<le> int (length array) - 1"
  then show "getIndexOf_loop array target cf start end' \<noteq> Throw"
    using getIndexOf_loop_result [of start end' array target cf] by auto
next
  show "getIndexOf_loop array target cf 0 (int (length array) - 1) \<noteq> Throw"
    using getIndexOf_loop_result [of 0 "int (length array) - 1" array target cf] by auto
qed

theorem getIndexOf_memory_safe_witness:
  "(0::int) \<le> 0 \<and> (2::int) \<le> int (length [5, 3, 9 :: int]) - 1 \<and> (0::int) \<le> 2 \<and>
   (0 + 2) div 2 < int (length [5, 3, 9 :: int]) \<and>
   getIndexOf_body [5, 3, 9 :: int] (9::int) (\<lambda>x y. x - y) 0 2 = Continue 2 2 \<and>
   getIndexOf_loop [5, 3, 9 :: int] (9::int) (\<lambda>x y. x - y) 0 2 \<noteq> Throw"
  using getIndexOf_memory_safe [of 0 2 "[5, 3, 9 :: int]" 9 "\<lambda>x y. x - y"]
  by (simp add: getIndexOf_body_def)

text \<open>
  C2. On an array sorted ascending by the comparator (itself consistent), \<open>getIndexOf\<close>
  computes what the specified algorithm computes (from \<open>start = 0\<close>, \<open>end = n - 1\<close>, with
  \<open>-1\<close> for not-found); if some entry compares equal to the target it returns a valid
  index of an entry that compares equal, and if none does it returns \<open>-1\<close>, which is no
  valid index. On the empty store the lookup finds nothing, and on a store of one entry
  it returns that entry exactly when its name compares equal to the queried name.
\<close>

theorem getIndexOf_sorted_correct:
  assumes c: "consistent (lc Accent)" and s: "sortedStore lc array"
  shows "getIndexOf array target (\<lambda>x y. lc Accent (entry x) y) =
       (case specBinarySearch array (\<lambda>x. lc Accent (entry x) target) 0
               (int (length array) - 1) of Some m \<Rightarrow> m | None \<Rightarrow> - 1) \<and>
     ((\<exists>e \<in> set array. lc Accent (entry e) target = 0) \<longrightarrow>
        0 \<le> getIndexOf array target (\<lambda>x y. lc Accent (entry x) y) \<and>
        getIndexOf array target (\<lambda>x y. lc Accent (entry x) y) < int (length array) \<and>
        lc Accent (entry (array ! nat (getIndexOf array target (\<lambda>x y. lc Accent (entry x) y))))
          target = 0) \<and>
     ((\<forall>e \<in> set array. lc Accent (entry e) target \<noteq> 0) \<longrightarrow>
        getIndexOf array target (\<lambda>x y. lc Accent (entry x) y) = - 1) \<and>
     getIndexOf [] target (\<lambda>x y. lc Accent (entry x) y) = - 1 \<and>
     findDictionaryEntry lc [] target = None \<and>
     findDictionaryEntry lc [e] target =
       (if lc Accent (entry e) target = 0
        then Some [(''author'', author e), (''definition'', definitionText e)] else None)"
proof -
  let ?cf = "\<lambda>x y. lc Accent (entry x) y"
  let ?r = "getIndexOf array target ?cf"
  have spec: "?r = (case specBinarySearch array (\<lambda>x. lc Accent (entry x) target) 0
               (int (length array) - 1) of Some m \<Rightarrow> m | None \<Rightarrow> - 1)"
    using getIndexOf_loop_refines [of 0 "int (length array) - 1" array target ?cf]
    by (simp add: getIndexOf_def split: option.splits)
  have range: "?r = - 1 \<or> (0 \<le> ?r \<and> ?r < int (length array) \<and>
      lc Accent (entry (array ! nat ?r)) target = 0)"
    using getIndexOf_range [of array target ?cf] by simp
  have hit: "(\<exists>e \<in> set array. lc Accent (entry e) target = 0) \<longrightarrow>
      0 \<le> ?r \<and> ?r < int (length array) \<and> lc Accent (entry (array ! nat ?r)) target = 0"
  proof
    assume "\<exists>e \<in> set array. lc Accent (entry e) target = 0"
    then obtain i where i: "i < length array" "lc Accent (entry (array ! i)) target = 0"
      by (auto simp add: in_set_conv_nth)
    have "?r \<noteq> - 1"
      using getIndexOf_miss [OF sorted_signMonotone [OF c s, of target] _ i(1)] i(2) by blast
    with range show "0 \<le> ?r \<and> ?r < int (length array) \<and>
        lc Accent (entry (array ! nat ?r)) target = 0" by blast
  qed
  have miss: "(\<forall>e \<in> set array. lc Accent (entry e) target \<noteq> 0) \<longrightarrow> ?r = - 1"
  proof
    assume a: "\<forall>e \<in> set array. lc Accent (entry e) target \<noteq> 0"
    show "?r = - 1"
    proof (rule ccontr)
      assume "?r \<noteq> - 1"
      with range have "0 \<le> ?r" "?r < int (length array)"
        "lc Accent (entry (array ! nat ?r)) target = 0" by blast+
      moreover from this have "array ! nat ?r \<in> set array" by simp
      ultimately show False using a by blast
    qed
  qed
  from spec hit miss show ?thesis
    by (simp only: getIndexOf_Nil findDictionaryEntry_Nil findDictionaryEntry_single simp_thms)
qed

theorem getIndexOf_sorted_correct_witness:
  "consistent (latinCompare Accent) \<and>
   sortedStore latinCompare
     [\<lparr>author = ''al'', entry = ''apple'', definitionText = ''a red fruit''\<rparr>,
      \<lparr>author = ''bo'', entry = ''banana'', definitionText = ''a yellow fruit''\<rparr>] \<and>
   getIndexOf
     [\<lparr>author = ''al'', entry = ''apple'', definitionText = ''a red fruit''\<rparr>,
      \<lparr>author = ''bo'', entry = ''banana'', definitionText = ''a yellow fruit''\<rparr>]
     ''BANANA'' (\<lambda>x y. latinCompare Accent (entry x) y) = 1"
proof -
  let ?arr = "[\<lparr>author = ''al'', entry = ''apple'', definitionText = ''a red fruit''\<rparr>,
      \<lparr>author = ''bo'', entry = ''banana'', definitionText = ''a yellow fruit''\<rparr>]"
  have s: "sortedStore latinCompare ?arr"
    by (simp add: sortedStore_def collation_eval)
  have e: "\<exists>e \<in> set ?arr. latinCompare Accent (entry e) ''BANANA'' = 0"
    by (simp add: collation_eval)
  have n: "latinCompare Accent (entry (?arr ! 0)) ''BANANA'' \<noteq> 0"
    by (simp add: collation_eval)
  let ?r = "getIndexOf ?arr ''BANANA'' (\<lambda>x y. latinCompare Accent (entry x) y)"
  note T = getIndexOf_sorted_correct [OF latinCompare_consistent s, of "''BANANA''"]
  note R = mp [OF conjunct1 [OF conjunct2 [OF T]] e]
  have r: "0 \<le> ?r" "?r < 2" "latinCompare Accent (entry (?arr ! nat ?r)) ''BANANA'' = 0"
    using R by (simp_all only: list.size length_Cons One_nat_def) simp_all
  have "?r = 1"
  proof (rule ccontr)
    assume "?r \<noteq> 1"
    with r(1,2) have "?r = 0" by linarith
    with r(3) n show False by simp
  qed
  with s latinCompare_consistent show ?thesis by blast
qed

lemma handleDefineCommand_absent:
  assumes "2 \<le> length (options i)"
    and "findDictionaryEntry lc (dictData st) (trim (options i ! 0)) = None"
  shows "handleDefineCommand lc i st =
    (Reply (''**DICT:** Definition for '' @ trim (options i ! 0) @ '' added successfully.''),
     flushDictData (sortDictData lc
       (st\<lparr>dictData := dictData st @
          [\<lparr>author = username i, entry = trim (options i ! 0),
            definitionText = trim (options i ! 1)\<rparr>]\<rparr>)))"
  using assms by (auto simp add: handleDefineCommand_def Let_def)

lemma handleDefineCommand_present:
  assumes "2 \<le> length (options i)"
    and "findDictionaryEntry lc (dictData st) (trim (options i ! 0)) = Some existing"
  shows "handleDefineCommand lc i st =
    (Reply (''**DICT:** Definition for '' @ trim (options i ! 0) @ '' already exists as: ''
            @ propertyText existing ''1'' @ '' by '' @ propertyText existing ''0''), st)"
  using assms by (auto simp add: handleDefineCommand_def Let_def)

lemma handleDefineCommand_short:
  "length (options i) < 2 \<Longrightarrow> snd (handleDefineCommand lc i st) = st"
  by (simp add: handleDefineCommand_def)

lemma dictData_flushDictData: "dictData (flushDictData st) = dictData st"
  by (simp add: flushDictData_def)

lemma sorted_handleDefineCommand:
  assumes c: "consistent (lc Accent)" and s: "sortedStore lc (dictData st)"
  shows "sortedStore lc (dictData (snd (handleDefineCommand lc i st)))"
proof (cases "length (options i) < 2")
  case True
  then show ?thesis using s by (simp add: handleDefineCommand_short)
next
  case False
  then have l: "2 \<le> length (options i)" by simp
  show ?thesis
  proof (cases "findDictionaryEntry lc (dictData st) (trim (options i ! 0))")
    case None
    show ?thesis
      by (simp only: handleDefineCommand_absent [OF l None] snd_conv dictData_flushDictData
          sorted_sortDictData [where lc = lc, OF c])
  next
    case (Some existing)
    show ?thesis
      by (simp only: handleDefineCommand_present [OF l Some] snd_conv s)
  qed
qed

lemma sorted_exec:
  assumes c: "consistent (lc Accent)" and s: "sortedStore lc (dictData st)"
  shows "sortedStore lc (dictData (exec lc st cmd))"
proof (cases cmd)
  case Init
  then show ?thesis using s by (simp add: init_def sortDictData_sorted_id)
next
  case (Define i)
  then show ?thesis using sorted_handleDefineCommand [where lc = lc, OF c s] by simp
qed (use s in simp_all)

lemma sorted_run:
  assumes c: "consistent (lc Accent)"
  shows "sortedStore lc (dictData st) \<Longrightarrow> sortedStore lc (dictData (run lc cmds st))"
  unfolding run_def
proof (induction cmds arbitrary: st)
  case Nil
  then show ?case by simp
next
  case (Cons cmd cmds)
  from sorted_exec [where lc = lc, OF c Cons.prems] have "sortedStore lc (dictData (exec lc st cmd))" .
  from Cons.IH [OF this] show ?case by simp
qed

text \<open>
  C1. With a consistent comparator, the entry sequence is sorted ascending by the
  comparator on the entry names after \<open>init\<close> (whatever the loaded sequence was), after a
  define that inserts (whatever the sequence was before), after every command run on a
  sorted store, and so after every sequence of commands run on the module once it is
  loaded (loading calls \<open>init\<close>).
\<close>

theorem sortedness_invariant:
  assumes c: "consistent (lc Accent)"
  shows "sortedStore lc (dictData (init lc st)) \<and>
     (2 \<le> length (options i) \<and>
      findDictionaryEntry lc (dictData st) (trim (options i ! 0)) = None \<longrightarrow>
        sortedStore lc (dictData (snd (handleDefineCommand lc i st)))) \<and>
     (sortedStore lc (dictData st) \<longrightarrow> sortedStore lc (dictData (exec lc st cmd))) \<and>
     sortedStore lc (dictData (run lc cmds (loadModule lc fileData)))"
proof (intro conjI impI)
  show "sortedStore lc (dictData (init lc st))"
    by (simp only: init_def sorted_sortDictData [where lc = lc, OF c])
next
  assume "2 \<le> length (options i) \<and>
      findDictionaryEntry lc (dictData st) (trim (options i ! 0)) = None"
  then have l: "2 \<le> length (options i)"
    and n: "findDictionaryEntry lc (dictData st) (trim (options i ! 0)) = None" by simp_all
  show "sortedStore lc (dictData (snd (handleDefineCommand lc i st)))"
    by (simp only: handleDefineCommand_absent [OF l n] snd_conv dictData_flushDictData
        sorted_sortDictData [where lc = lc, OF c])
next
  assume "sortedStore lc (dictData st)"
  then show "sortedStore lc (dictData (exec lc st cmd))" by (rule sorted_exec [where lc = lc, OF c])
next
  have "sortedStore lc (dictData (loadModule lc fileData))"
    by (simp only: loadModule_def init_def sorted_sortDictData [where lc = lc, OF c])
  then show "sortedStore lc (dictData (run lc cmds (loadModule lc fileData)))"
    by (rule sorted_run [where lc = lc, OF c])
qed

text \<open>
  C8. With a consistent comparator, \<open>init\<close> on a store whose sequence is already sorted
  ascending by the comparator returns the same store, element for element (entries that
  compare equal keep their relative order); so a second \<open>init\<close> changes nothing.
\<close>

theorem init_idempotent:
  assumes c: "consistent (lc Accent)"
  shows "(sortedStore lc (dictData st) \<longrightarrow>
       init lc st = st \<and> dictData (init lc st) = dictData st) \<and>
     init lc (init lc st) = init lc st"
proof (intro conjI impI)
  assume s: "sortedStore lc (dictData st)"
  then show "init lc st = st" by (simp add: init_def sortDictData_sorted_id)
  then show "dictData (init lc st) = dictData st" by simp
next
  have "sortedStore lc (dictData (sortDictData lc st))" by (rule sorted_sortDictData [where lc = lc, OF c])
  then show "init lc (init lc st) = init lc st"
    by (simp add: init_def sortDictData_sorted_id)
qed

lemmas trim_eval = trim_def trimStart_def trimEnd_def isWhiteSpace_def

theorem sortedness_invariant_witness:
  "consistent (latinCompare Accent) \<and>
   2 \<le> length (options \<lparr>options = [''Cherry'', ''a stone fruit''], username = ''cy''\<rparr>) \<and>
   findDictionaryEntry latinCompare
     [\<lparr>author = ''al'', entry = ''apple'', definitionText = ''a red fruit''\<rparr>,
      \<lparr>author = ''bo'', entry = ''banana'', definitionText = ''a yellow fruit''\<rparr>]
     (trim ''Cherry'') = None \<and>
   sortedStore latinCompare
     [\<lparr>author = ''al'', entry = ''apple'', definitionText = ''a red fruit''\<rparr>,
      \<lparr>author = ''bo'', entry = ''banana'', definitionText = ''a yellow fruit''\<rparr>] \<and>
   sortedStore latinCompare (dictData (snd (handleDefineCommand latinCompare
     \<lparr>options = [''Cherry'', ''a stone fruit''], username = ''cy''\<rparr>
     \<lparr>dictData =
        [\<lparr>author = ''al'', entry = ''apple'', definitionText = ''a red fruit''\<rparr>,
         \<lparr>author = ''bo'', entry = ''banana'', definitionText = ''a yellow fruit''\<rparr>],
      flushed = []\<rparr>))) \<and>
   sortedStore latinCompare (dictData (run latinCompare
     [Define \<lparr>options = [''Cherry'', ''a stone fruit''], username = ''cy''\<rparr>]
     (loadModule latinCompare
        [\<lparr>author = ''bo'', entry = ''banana'', definitionText = ''a yellow fruit''\<rparr>,
         \<lparr>author = ''al'', entry = ''apple'', definitionText = ''a red fruit''\<rparr>])))"
proof -
  let ?i = "\<lparr>options = [''Cherry'', ''a stone fruit''], username = ''cy''\<rparr>"
  let ?d = "[\<lparr>author = ''al'', entry = ''apple'', definitionText = ''a red fruit''\<rparr>,
      \<lparr>author = ''bo'', entry = ''banana'', definitionText = ''a yellow fruit''\<rparr>]"
  let ?st = "\<lparr>dictData = ?d, flushed = []\<rparr>"
  have l: "2 \<le> length (options ?i)" by simp
  have t: "trim ''Cherry'' = ''Cherry''" by (simp add: trim_eval)
  have "\<forall>e \<in> set ?d. latinCompare Accent (entry e) ''Cherry'' \<noteq> 0"
    by (simp add: collation_eval)
  then have n: "findDictionaryEntry latinCompare ?d (trim ''Cherry'') = None"
    unfolding t by (rule findDictionaryEntry_None_absent)
  have s: "sortedStore latinCompare ?d" by (simp add: sortedStore_def collation_eval)
  note T = sortedness_invariant [where lc = latinCompare and i = ?i and st = ?st
      and cmds = "[Define ?i]" and fileData =
        "[\<lparr>author = ''bo'', entry = ''banana'', definitionText = ''a yellow fruit''\<rparr>,
         \<lparr>author = ''al'', entry = ''apple'', definitionText = ''a red fruit''\<rparr>]",
      OF latinCompare_consistent]
  have a: "sortedStore latinCompare (dictData (snd (handleDefineCommand latinCompare ?i ?st)))"
    using conjunct1 [OF conjunct2 [OF T]] l n by simp
  note b = conjunct2 [OF conjunct2 [OF conjunct2 [OF T]]]
  from latinCompare_consistent l n s a b show ?thesis by blast
qed

theorem init_idempotent_witness:
  "consistent (latinCompare Accent) \<and>
   sortedStore latinCompare
     [\<lparr>author = ''al'', entry = ''apple'', definitionText = ''a red fruit''\<rparr>,
      \<lparr>author = ''bo'', entry = ''banana'', definitionText = ''a yellow fruit''\<rparr>] \<and>
   init latinCompare \<lparr>dictData =
        [\<lparr>author = ''al'', entry = ''apple'', definitionText = ''a red fruit''\<rparr>,
         \<lparr>author = ''bo'', entry = ''banana'', definitionText = ''a yellow fruit''\<rparr>],
      flushed = []\<rparr> =
   \<lparr>dictData =
        [\<lparr>author = ''al'', entry = ''apple'', definitionText = ''a red fruit''\<rparr>,
         \<lparr>author = ''bo'', entry = ''banana'', definitionText = ''a yellow fruit''\<rparr>],
      flushed = []\<rparr>"
proof -
  let ?d = "[\<lparr>author = ''al'', entry = ''apple'', definitionText = ''a red fruit''\<rparr>,
      \<lparr>author = ''bo'', entry = ''banana'', definitionText = ''a yellow fruit''\<rparr>]"
  let ?st = "\<lparr>dictData = ?d, flushed = []\<rparr>"
  have s: "sortedStore latinCompare ?d" by (simp add: sortedStore_def collation_eval)
  note T = init_idempotent [where lc = latinCompare and st = ?st, OF latinCompare_consistent]
  have "init latinCompare ?st = ?st" using conjunct1 [OF T] s by simp
  with latinCompare_consistent s show ?thesis by blast
qed

lemma findDictionaryEntry_unique:
  assumes c: "consistent (lc Accent)" and s: "sortedStore lc data"
    and n: "new \<in> set data" and eq: "lc Accent (entry new) name = 0"
    and others: "\<forall>e \<in> set data. e \<noteq> new \<longrightarrow> lc Accent (entry e) name \<noteq> 0"
  shows "findDictionaryEntry lc data name =
    Some [(''author'', author new), (''definition'', definitionText new)]"
proof (cases "findDictionaryEntry lc data name")
  case None
  from findDictionaryEntry_None_sorted [where lc = lc, OF c s None n] eq show ?thesis by simp
next
  case (Some obj)
  from findDictionaryEntry_Some [OF Some] obtain e where e: "e \<in> set data"
    "lc Accent (entry e) name = 0"
    "obj = [(''author'', author e), (''definition'', definitionText e)]" by blast
  from e(1,2) others have "e = new" by blast
  with Some e(3) show ?thesis by simp
qed

text \<open>
  C3. With a consistent comparator, when no entry of the store compares equal to the
  (trimmed) name, \<open>/define\<close> answers that the definition was added; the new sequence is
  the old one with the new entry (name, definition, the user as author) appended and then
  sorted, so it holds exactly the old entries and the new one, and is sorted; a write of
  that sequence is issued; the count has grown by exactly one; and a lookup of the name
  in the new store, made before any write completes, returns the new entry's author and
  definition.
\<close>

theorem define_inserts:
  assumes c: "consistent (lc Accent)" and l: "2 \<le> length (options i)"
    and a: "\<forall>e \<in> set (dictData st). lc Accent (entry e) (trim (options i ! 0)) \<noteq> 0"
  shows "let name = trim (options i ! 0);
             new = \<lparr>author = username i, entry = name, definitionText = trim (options i ! 1)\<rparr>;
             st' = snd (handleDefineCommand lc i st)
         in fst (handleDefineCommand lc i st) =
              Reply (''**DICT:** Definition for '' @ name @ '' added successfully.'') \<and>
            dictData st' = arraySort (entryCompare lc) (dictData st @ [new]) \<and>
            mset (dictData st') = add_mset new (mset (dictData st)) \<and>
            sortedStore lc (dictData st') \<and>
            flushed st' = flushed st @ [dictData st'] \<and>
            getDictDataEntryCount st' = getDictDataEntryCount st + 1 \<and>
            findDictionaryEntry lc (dictData st') name =
              Some [(''author'', username i), (''definition'', trim (options i ! 1))]"
proof -
  define name where "name = trim (options i ! 0)"
  define new where
    "new = \<lparr>author = username i, entry = name, definitionText = trim (options i ! 1)\<rparr>"
  define d' where "d' = arraySort (entryCompare lc) (dictData st @ [new])"
  have none: "findDictionaryEntry lc (dictData st) (trim (options i ! 0)) = None"
    using a by (rule findDictionaryEntry_None_absent)
  have h: "handleDefineCommand lc i st =
      (Reply (''**DICT:** Definition for '' @ name @ '' added successfully.''),
       flushDictData (sortDictData lc (st\<lparr>dictData := dictData st @ [new]\<rparr>)))"
    unfolding name_def new_def by (rule handleDefineCommand_absent [OF l none])
  have data: "dictData (snd (handleDefineCommand lc i st)) = d'"
    by (simp add: h flushDictData_def sortDictData_def d'_def)
  have fl: "flushed (snd (handleDefineCommand lc i st)) = flushed st @ [d']"
    by (simp add: h flushDictData_def sortDictData_def d'_def)
  have ms: "mset d' = add_mset new (mset (dictData st))"
    by (simp add: d'_def mset_arraySort)
  have st: "set d' = insert new (set (dictData st))"
    by (simp add: d'_def set_arraySort)
  have len: "length d' = length (dictData st) + 1"
    by (simp add: d'_def length_arraySort)
  have sorted: "sortedStore lc d'"
    unfolding d'_def sortedStore_entryCompare
    by (rule sorted_arraySort [OF consistent_entryCompare [where lc = lc, OF c]])
  have eq: "lc Accent (entry new) name = 0"
    using consistent_refl [where cmp = "lc Accent", OF c] by (simp add: new_def)
  have others: "\<forall>e \<in> set d'. e \<noteq> new \<longrightarrow> lc Accent (entry e) name \<noteq> 0"
    using a st by (simp add: name_def)
  have "findDictionaryEntry lc d' name =
      Some [(''author'', author new), (''definition'', definitionText new)]"
    by (rule findDictionaryEntry_unique [where lc = lc, OF c sorted _ eq others]) (simp add: st)
  then have find: "findDictionaryEntry lc d' name =
      Some [(''author'', username i), (''definition'', trim (options i ! 1))]"
    by (simp add: new_def)
  have f1: "fst (handleDefineCommand lc i st) =
      Reply (''**DICT:** Definition for '' @ name @ '' added successfully.'')"
    by (simp add: h)
  have cnt: "getDictDataEntryCount (snd (handleDefineCommand lc i st)) =
      getDictDataEntryCount st + 1"
    by (simp add: getDictDataEntryCount_def data len)
  have d'': "d' = arraySort (entryCompare lc) (dictData st @ [new])" by (rule d'_def)
  show ?thesis
    unfolding Let_def name_def [symmetric] new_def [symmetric] data fl
    using f1 d'' ms sorted cnt find by blast
qed

text \<open>
  C5. With a consistent comparator and a sorted store that holds an entry comparing
  equal to the (trimmed) name, \<open>/define\<close> answers that the definition already exists and
  returns the state as it was: the sequence (so every entry's fields and the count) and
  the list of issued writes are unchanged, so nothing was appended, sorted or written.
\<close>

theorem define_duplicate_unchanged:
  assumes c: "consistent (lc Accent)" and s: "sortedStore lc (dictData st)"
    and l: "2 \<le> length (options i)"
    and d: "\<exists>e \<in> set (dictData st). lc Accent (entry e) (trim (options i ! 0)) = 0"
  shows "snd (handleDefineCommand lc i st) = st \<and>
     dictData (snd (handleDefineCommand lc i st)) = dictData st \<and>
     flushed (snd (handleDefineCommand lc i st)) = flushed st \<and>
     getDictDataEntryCount (snd (handleDefineCommand lc i st)) = getDictDataEntryCount st \<and>
     (\<exists>rest. fst (handleDefineCommand lc i st) =
        Reply (''**DICT:** Definition for '' @ trim (options i ! 0) @ '' already exists as: ''
               @ rest))"
proof -
  from d obtain e where e: "e \<in> set (dictData st)"
    "lc Accent (entry e) (trim (options i ! 0)) = 0" by blast
  have "findDictionaryEntry lc (dictData st) (trim (options i ! 0)) \<noteq> None"
    using findDictionaryEntry_None_sorted [where lc = lc, OF c s _ e(1)] e(2) by blast
  then obtain existing where
    "findDictionaryEntry lc (dictData st) (trim (options i ! 0)) = Some existing" by blast
  note h = handleDefineCommand_present [OF l this]
  show ?thesis unfolding h by simp
qed

theorem define_inserts_witness:
  "consistent (latinCompare Accent) \<and>
   2 \<le> length (options \<lparr>options = [''  Cherry '', '' a stone fruit  ''], username = ''cy''\<rparr>) \<and>
   latinCompare Accent ''apple'' (trim ''  Cherry '') \<noteq> 0 \<and>
   latinCompare Accent ''banana'' (trim ''  Cherry '') \<noteq> 0 \<and>
   getDictDataEntryCount (snd (handleDefineCommand latinCompare
     \<lparr>options = [''  Cherry '', '' a stone fruit  ''], username = ''cy''\<rparr>
     \<lparr>dictData =
        [\<lparr>author = ''al'', entry = ''apple'', definitionText = ''a red fruit''\<rparr>,
         \<lparr>author = ''bo'', entry = ''banana'', definitionText = ''a yellow fruit''\<rparr>],
      flushed = []\<rparr>)) = 3 \<and>
   findDictionaryEntry latinCompare (dictData (snd (handleDefineCommand latinCompare
     \<lparr>options = [''  Cherry '', '' a stone fruit  ''], username = ''cy''\<rparr>
     \<lparr>dictData =
        [\<lparr>author = ''al'', entry = ''apple'', definitionText = ''a red fruit''\<rparr>,
         \<lparr>author = ''bo'', entry = ''banana'', definitionText = ''a yellow fruit''\<rparr>],
      flushed = []\<rparr>))) ''Cherry'' =
     Some [(''author'', ''cy''), (''definition'', ''a stone fruit'')]"
proof -
  let ?i = "\<lparr>options = [''  Cherry '', '' a stone fruit  ''], username = ''cy''\<rparr>"
  let ?d = "[\<lparr>author = ''al'', entry = ''apple'', definitionText = ''a red fruit''\<rparr>,
      \<lparr>author = ''bo'', entry = ''banana'', definitionText = ''a yellow fruit''\<rparr>]"
  let ?st = "\<lparr>dictData = ?d, flushed = []\<rparr>"
  have l: "2 \<le> length (options ?i)" by simp
  have t0: "trim ''  Cherry '' = ''Cherry''" by (simp add: trim_eval)
  have t1: "trim '' a stone fruit  '' = ''a stone fruit''" by (simp add: trim_eval)
  have n1: "latinCompare Accent ''apple'' (trim ''  Cherry '') \<noteq> 0"
    unfolding t0 by (simp add: collation_eval)
  have n2: "latinCompare Accent ''banana'' (trim ''  Cherry '') \<noteq> 0"
    unfolding t0 by (simp add: collation_eval)
  have a: "\<forall>e \<in> set (dictData ?st). latinCompare Accent (entry e) (trim (options ?i ! 0)) \<noteq> 0"
    using n1 n2 by simp
  note T = define_inserts [where lc = latinCompare and i = ?i and st = ?st,
      OF latinCompare_consistent l a, unfolded Let_def]
  note T5 = conjunct2 [OF conjunct2 [OF conjunct2 [OF conjunct2 [OF conjunct2 [OF T]]]]]
  have cnt: "getDictDataEntryCount (snd (handleDefineCommand latinCompare ?i ?st)) = 3"
    using conjunct1 [OF T5] by (simp add: getDictDataEntryCount_def)
  have find: "findDictionaryEntry latinCompare
      (dictData (snd (handleDefineCommand latinCompare ?i ?st))) ''Cherry'' =
      Some [(''author'', ''cy''), (''definition'', ''a stone fruit'')]"
    using conjunct2 [OF T5] by (simp add: t0 t1)
  from latinCompare_consistent l n1 n2 cnt find show ?thesis by blast
qed

theorem define_duplicate_unchanged_witness:
  "consistent (latinCompare Accent) \<and>
   sortedStore latinCompare [\<lparr>author = ''alice'', entry = ''Foo'', definitionText = ''A''\<rparr>] \<and>
   2 \<le> length (options \<lparr>options = [''foo'', ''B''], username = ''bob''\<rparr>) \<and>
   latinCompare Accent ''Foo'' (trim ''foo'') = 0 \<and>
   snd (handleDefineCommand latinCompare \<lparr>options = [''foo'', ''B''], username = ''bob''\<rparr>
     \<lparr>dictData = [\<lparr>author = ''alice'', entry = ''Foo'', definitionText = ''A''\<rparr>],
      flushed = [[\<lparr>author = ''alice'', entry = ''Foo'', definitionText = ''A''\<rparr>]]\<rparr>) =
   \<lparr>dictData = [\<lparr>author = ''alice'', entry = ''Foo'', definitionText = ''A''\<rparr>],
      flushed = [[\<lparr>author = ''alice'', entry = ''Foo'', definitionText = ''A''\<rparr>]]\<rparr>"
proof -
  let ?i = "\<lparr>options = [''foo'', ''B''], username = ''bob''\<rparr>"
  let ?d = "[\<lparr>author = ''alice'', entry = ''Foo'', definitionText = ''A''\<rparr>]"
  let ?st = "\<lparr>dictData = ?d, flushed = [?d]\<rparr>"
  have l: "2 \<le> length (options ?i)" by simp
  have s: "sortedStore latinCompare (dictData ?st)" by (simp add: sortedStore_def)
  have t0: "trim ''foo'' = ''foo''" by (simp add: trim_eval)
  have e: "latinCompare Accent ''Foo'' (trim ''foo'') = 0"
    unfolding t0 by (simp add: collation_eval)
  have d: "\<exists>e \<in> set (dictData ?st). latinCompare Accent (entry e) (trim (options ?i ! 0)) = 0"
    using e by simp
  note T = define_duplicate_unchanged [where lc = latinCompare and i = ?i and st = ?st,
      OF latinCompare_consistent s l d]
  from s have s': "sortedStore latinCompare ?d" by simp
  from latinCompare_consistent s' l e conjunct1 [OF T] show ?thesis by blast
qed

lemmas handler_eval = handleDefineCommand_def handleDictCommand_def findDictionaryEntry_def
  getIndexOf_def getIndexOf_body_def sortDictData_def flushDictData_def entryCompare_def
  arraySort_def propertyText_def loadModule_def init_def

text \<open>
  C4. The two defines of the claim, run one after the other on an empty store. The second
  is rejected and leaves the store as it was, but the reply does not report the existing
  definition or author: \<open>findDictionaryEntry\<close> returns an object with the properties
  \<open>author\<close> and \<open>definition\<close>, and \<open>handleDefineCommand\<close> reads its properties \<open>1\<close> and
  \<open>0\<close>, which are \<open>undefined\<close>.
\<close>

theorem define_duplicate_reply:
  "handleDefineCommand latinCompare \<lparr>options = [''Foo'', ''A''], username = ''alice''\<rparr>
      (loadModule latinCompare []) =
     (Reply ''**DICT:** Definition for Foo added successfully.'',
      \<lparr>dictData = [\<lparr>author = ''alice'', entry = ''Foo'', definitionText = ''A''\<rparr>],
        flushed = [[\<lparr>author = ''alice'', entry = ''Foo'', definitionText = ''A''\<rparr>]]\<rparr>) \<and>
   handleDefineCommand latinCompare \<lparr>options = [''foo'', ''B''], username = ''bob''\<rparr>
      \<lparr>dictData = [\<lparr>author = ''alice'', entry = ''Foo'', definitionText = ''A''\<rparr>],
        flushed = [[\<lparr>author = ''alice'', entry = ''Foo'', definitionText = ''A''\<rparr>]]\<rparr> =
     (Reply ''**DICT:** Definition for foo already exists as: undefined by undefined'',
      \<lparr>dictData = [\<lparr>author = ''alice'', entry = ''Foo'', definitionText = ''A''\<rparr>],
        flushed = [[\<lparr>author = ''alice'', entry = ''Foo'', definitionText = ''A''\<rparr>]]\<rparr>) \<and>
   handleDictCommand latinCompare \<lparr>options = [''foo''], username = ''bob''\<rparr>
      \<lparr>dictData = [\<lparr>author = ''alice'', entry = ''Foo'', definitionText = ''A''\<rparr>],
        flushed = [[\<lparr>author = ''alice'', entry = ''Foo'', definitionText = ''A''\<rparr>]]\<rparr> =
     Reply ''**DICT:** **foo** = A [added by: alice]''"
proof (intro conjI)
  show "handleDefineCommand latinCompare \<lparr>options = [''Foo'', ''A''], username = ''alice''\<rparr>
      (loadModule latinCompare []) =
     (Reply ''**DICT:** Definition for Foo added successfully.'',
      \<lparr>dictData = [\<lparr>author = ''alice'', entry = ''Foo'', definitionText = ''A''\<rparr>],
        flushed = [[\<lparr>author = ''alice'', entry = ''Foo'', definitionText = ''A''\<rparr>]]\<rparr>)"
    by (simp add: handler_eval trim_eval Let_def)
  show "handleDefineCommand latinCompare \<lparr>options = [''foo'', ''B''], username = ''bob''\<rparr>
      \<lparr>dictData = [\<lparr>author = ''alice'', entry = ''Foo'', definitionText = ''A''\<rparr>],
        flushed = [[\<lparr>author = ''alice'', entry = ''Foo'', definitionText = ''A''\<rparr>]]\<rparr> =
     (Reply ''**DICT:** Definition for foo already exists as: undefined by undefined'',
      \<lparr>dictData = [\<lparr>author = ''alice'', entry = ''Foo'', definitionText = ''A''\<rparr>],
        flushed = [[\<lparr>author = ''alice'', entry = ''Foo'', definitionText = ''A''\<rparr>]]\<rparr>)"
    by (simp add: handler_eval trim_eval collation_eval)
  show "handleDictCommand latinCompare \<lparr>options = [''foo''], username = ''bob''\<rparr>
      \<lparr>dictData = [\<lparr>author = ''alice'', entry = ''Foo'', definitionText = ''A''\<rparr>],
        flushed = [[\<lparr>author = ''alice'', entry = ''Foo'', definitionText = ''A''\<rparr>]]\<rparr> =
     Reply ''**DICT:** **foo** = A [added by: alice]''"
    by (simp add: handler_eval trim_eval collation_eval)
qed

text \<open>
  C6, as stated, fails: the source asks for \<open>sensitivity: 'accent'\<close>, under which an
  accented letter and its base letter compare unequal. After \<open>/define\<close> of \<open>caf\<close>
  followed by U+00E9 on an empty store, \<open>/dict CAFE\<close> finds no definition.
\<close>

theorem accent_folding_counterexample:
  "latinCompare Accent (''caf'' @ [CHR 0xE9]) ''CAFE'' \<noteq> 0 \<and>
   handleDictCommand latinCompare \<lparr>options = [''CAFE''], username = ''bob''\<rparr>
     (snd (handleDefineCommand latinCompare
        \<lparr>options = [''caf'' @ [CHR 0xE9], ''a coffee house''], username = ''alice''\<rparr>
        (loadModule latinCompare []))) =
     Reply ''**DICT:** No definition for CAFE''"
  by (simp add: handler_eval trim_eval collation_eval)

text \<open>
  C6, amended. For every collation \<open>lc\<close>: after \<open>/define\<close> of \<open>caf\<close> followed by U+00E9
  on an empty store, \<open>/dict\<close> of \<open>Caf\<close> followed by U+00E9 returns that entry exactly
  when \<open>lc Accent\<close> compares the two names equal, and \<open>/dict CAFE\<close> returns it exactly
  when \<open>lc Accent\<close> compares the stored name equal to \<open>CAFE\<close>. At the sensitivity
  \<open>accent\<close> the first pair compares equal (the names differ in case only) and the second
  does not (U+00E9 is not equal to its base letter), as they do in the modelled collation,
  which also tells the base letters \<open>f\<close> and \<open>b\<close> apart. So the first lookup returns the
  entry and the second finds no definition.
\<close>

theorem accent_sensitivity_lookup:
  "handleDictCommand lc \<lparr>options = [''Caf'' @ [CHR 0xE9]], username = ''bob''\<rparr>
     (snd (handleDefineCommand lc
        \<lparr>options = [''caf'' @ [CHR 0xE9], ''a coffee house''], username = ''alice''\<rparr>
        (loadModule lc []))) =
     (if lc Accent (''caf'' @ [CHR 0xE9]) (''Caf'' @ [CHR 0xE9]) = 0
      then Reply (''**DICT:** **Caf'' @ [CHR 0xE9] @ ''** = a coffee house [added by: alice]'')
      else Reply (''**DICT:** No definition for Caf'' @ [CHR 0xE9])) \<and>
   handleDictCommand lc \<lparr>options = [''CAFE''], username = ''bob''\<rparr>
     (snd (handleDefineCommand lc
        \<lparr>options = [''caf'' @ [CHR 0xE9], ''a coffee house''], username = ''alice''\<rparr>
        (loadModule lc []))) =
     (if lc Accent (''caf'' @ [CHR 0xE9]) ''CAFE'' = 0
      then Reply ''**DICT:** **CAFE** = a coffee house [added by: alice]''
      else Reply ''**DICT:** No definition for CAFE'') \<and>
   latinCompare Accent (''caf'' @ [CHR 0xE9]) (''Caf'' @ [CHR 0xE9]) = 0 \<and>
   latinCompare Accent (''caf'' @ [CHR 0xE9]) ''CAFE'' \<noteq> 0 \<and>
   latinCompare Accent (''caf'' @ [CHR 0xE9]) (''cab'' @ [CHR 0xE9]) \<noteq> 0 \<and>
   handleDictCommand latinCompare \<lparr>options = [''Caf'' @ [CHR 0xE9]], username = ''bob''\<rparr>
     (snd (handleDefineCommand latinCompare
        \<lparr>options = [''caf'' @ [CHR 0xE9], ''a coffee house''], username = ''alice''\<rparr>
        (loadModule latinCompare []))) =
     Reply (''**DICT:** **Caf'' @ [CHR 0xE9] @ ''** = a coffee house [added by: alice]'') \<and>
   handleDictCommand latinCompare \<lparr>options = [''CAFE''], username = ''bob''\<rparr>
     (snd (handleDefineCommand latinCompare
        \<lparr>options = [''caf'' @ [CHR 0xE9], ''a coffee house''], username = ''alice''\<rparr>
        (loadModule latinCompare []))) =
     Reply ''**DICT:** No definition for CAFE''"
proof -
  have st: "\<And>lc. snd (handleDefineCommand lc
        \<lparr>options = [''caf'' @ [CHR 0xE9], ''a coffee house''], username = ''alice''\<rparr>
        (loadModule lc [])) =
      \<lparr>dictData = [\<lparr>author = ''alice'', entry = ''caf'' @ [CHR 0xE9],
                     definitionText = ''a coffee house''\<rparr>],
       flushed = [[\<lparr>author = ''alice'', entry = ''caf'' @ [CHR 0xE9],
                     definitionText = ''a coffee house''\<rparr>]]\<rparr>"
    by (simp add: handler_eval trim_eval Let_def)
  have l1: "\<And>lc. handleDictCommand lc \<lparr>options = [''Caf'' @ [CHR 0xE9]], username = ''bob''\<rparr>
     \<lparr>dictData = [\<lparr>author = ''alice'', entry = ''caf'' @ [CHR 0xE9],
                     definitionText = ''a coffee house''\<rparr>],
       flushed = [[\<lparr>author = ''alice'', entry = ''caf'' @ [CHR 0xE9],
                     definitionText = ''a coffee house''\<rparr>]]\<rparr> =
     (if lc Accent (''caf'' @ [CHR 0xE9]) (''Caf'' @ [CHR 0xE9]) = 0
      then Reply (''**DICT:** **Caf'' @ [CHR 0xE9] @ ''** = a coffee house [added by: alice]'')
      else Reply (''**DICT:** No definition for Caf'' @ [CHR 0xE9]))"
    by (simp add: handleDictCommand_def findDictionaryEntry_single propertyText_def trim_eval)
  have l2: "\<And>lc. handleDictCommand lc \<lparr>options = [''CAFE''], username = ''bob''\<rparr>
     \<lparr>dictData = [\<lparr>author = ''alice'', entry = ''caf'' @ [CHR 0xE9],
                     definitionText = ''a coffee house''\<rparr>],
       flushed = [[\<lparr>author = ''alice'', entry = ''caf'' @ [CHR 0xE9],
                     definitionText = ''a coffee house''\<rparr>]]\<rparr> =
     (if lc Accent (''caf'' @ [CHR 0xE9]) ''CAFE'' = 0
      then Reply ''**DICT:** **CAFE** = a coffee house [added by: alice]''
      else Reply ''**DICT:** No definition for CAFE'')"
    by (simp add: handleDictCommand_def findDictionaryEntry_single propertyText_def trim_eval)
  have c1: "latinCompare Accent (''caf'' @ [CHR 0xE9]) (''Caf'' @ [CHR 0xE9]) = 0"
    by (simp add: collation_eval)
  have c2: "latinCompare Accent (''caf'' @ [CHR 0xE9]) ''CAFE'' \<noteq> 0"
    by (simp add: collation_eval)
  have c3: "latinCompare Accent (''caf'' @ [CHR 0xE9]) (''cab'' @ [CHR 0xE9]) \<noteq> 0"
    by (simp add: collation_eval)
  show ?thesis
    unfolding st using l1 [of lc] l2 [of lc] l1 [of latinCompare] l2 [of latinCompare] c1 c2 c3
    by simp
qed

lemma includes_str_iff: "includes_str s sub \<longleftrightarrow> (\<exists>pre suf. s = pre @ sub @ suf)"
proof (induction s)
  case Nil
  then show ?case by auto
next
  case (Cons c cs)
  have "(\<exists>pre suf. c # cs = pre @ sub @ suf) \<longleftrightarrow>
      prefix sub (c # cs) \<or> (\<exists>pre suf. cs = pre @ sub @ suf)"
    using sublist_Cons_right [of sub c cs] by (simp add: sublist_def)
  with Cons show ?case by simp
qed

lemma indexOutput_Nil:
  "indexOutput [] s = ''Search string '' @ s @ '' not found in entries.''"
  by (simp add: indexOutput_def)

text \<open>
  C7. \<open>/index\<close> takes as search string the option value, trimmed and lowercased. Its
  matches are exactly the entries of the store whose lowercased definition contains that
  search string as a contiguous run, in the order of the store; the reply lists them, and
  when there is none the reply is the not-found message, not an error. With the entries
  apple (a red fruit) and banana (a yellow fruit), \<open>fruit\<close> matches both and \<open>zzz\<close> none.
\<close>

theorem index_search:
  "(options i \<noteq> [] \<longrightarrow>
      handleIndexCommand i st =
        Reply (indexOutput
          (indexMatches (dictData st) (toLowerCase (trim (options i ! 0))))
          (toLowerCase (trim (options i ! 0)))) \<and>
      indexMatches (dictData st) (toLowerCase (trim (options i ! 0))) =
        filter (\<lambda>e. \<exists>pre suf. toLowerCase (definitionText e) =
                  pre @ toLowerCase (trim (options i ! 0)) @ suf) (dictData st) \<and>
      (indexMatches (dictData st) (toLowerCase (trim (options i ! 0))) = [] \<longrightarrow>
         handleIndexCommand i st =
           Reply (''Search string '' @ toLowerCase (trim (options i ! 0))
                  @ '' not found in entries.''))) \<and>
   handleIndexCommand \<lparr>options = [''fruit''], username = ''cy''\<rparr>
     \<lparr>dictData =
        [\<lparr>author = ''al'', entry = ''apple'', definitionText = ''a red fruit''\<rparr>,
         \<lparr>author = ''bo'', entry = ''banana'', definitionText = ''a yellow fruit''\<rparr>],
      flushed = []\<rparr> =
     Reply (''Search string fruit found in entries: '' @ [CHR 0x22] @ ''apple'' @ [CHR 0x22]
            @ '', '' @ [CHR 0x22] @ ''banana'' @ [CHR 0x22]) \<and>
   indexMatches
     [\<lparr>author = ''al'', entry = ''apple'', definitionText = ''a red fruit''\<rparr>,
      \<lparr>author = ''bo'', entry = ''banana'', definitionText = ''a yellow fruit''\<rparr>]
     ''fruit'' =
     [\<lparr>author = ''al'', entry = ''apple'', definitionText = ''a red fruit''\<rparr>,
      \<lparr>author = ''bo'', entry = ''banana'', definitionText = ''a yellow fruit''\<rparr>] \<and>
   indexMatches
     [\<lparr>author = ''al'', entry = ''apple'', definitionText = ''a red fruit''\<rparr>,
      \<lparr>author = ''bo'', entry = ''banana'', definitionText = ''a yellow fruit''\<rparr>]
     ''zzz'' = [] \<and>
   handleIndexCommand \<lparr>options = [''zzz''], username = ''cy''\<rparr>
     \<lparr>dictData =
        [\<lparr>author = ''al'', entry = ''apple'', definitionText = ''a red fruit''\<rparr>,
         \<lparr>author = ''bo'', entry = ''banana'', definitionText = ''a yellow fruit''\<rparr>],
      flushed = []\<rparr> =
     Reply ''Search string zzz not found in entries.''"
proof (intro conjI impI)
  assume o: "options i \<noteq> []"
  then show h: "handleIndexCommand i st =
        Reply (indexOutput
          (indexMatches (dictData st) (toLowerCase (trim (options i ! 0))))
          (toLowerCase (trim (options i ! 0))))"
    by (simp add: handleIndexCommand_def Let_def)
  show "indexMatches (dictData st) (toLowerCase (trim (options i ! 0))) =
        filter (\<lambda>e. \<exists>pre suf. toLowerCase (definitionText e) =
                  pre @ toLowerCase (trim (options i ! 0)) @ suf) (dictData st)"
    by (simp add: indexMatches_def includes_str_iff)
  assume "indexMatches (dictData st) (toLowerCase (trim (options i ! 0))) = []"
  with h show "handleIndexCommand i st =
           Reply (''Search string '' @ toLowerCase (trim (options i ! 0))
                  @ '' not found in entries.'')"
    by (simp add: indexOutput_Nil)
next
  show "handleIndexCommand \<lparr>options = [''fruit''], username = ''cy''\<rparr>
     \<lparr>dictData =
        [\<lparr>author = ''al'', entry = ''apple'', definitionText = ''a red fruit''\<rparr>,
         \<lparr>author = ''bo'', entry = ''banana'', definitionText = ''a yellow fruit''\<rparr>],
      flushed = []\<rparr> =
     Reply (''Search string fruit found in entries: '' @ [CHR 0x22] @ ''apple'' @ [CHR 0x22]
            @ '', '' @ [CHR 0x22] @ ''banana'' @ [CHR 0x22])"
    by (simp add: handleIndexCommand_def indexMatches_def indexOutput_def toLowerCase_def
        lowerChar_def trim_eval Let_def upt_rec)
next
  show "indexMatches
     [\<lparr>author = ''al'', entry = ''apple'', definitionText = ''a red fruit''\<rparr>,
      \<lparr>author = ''bo'', entry = ''banana'', definitionText = ''a yellow fruit''\<rparr>]
     ''fruit'' =
     [\<lparr>author = ''al'', entry = ''apple'', definitionText = ''a red fruit''\<rparr>,
      \<lparr>author = ''bo'', entry = ''banana'', definitionText = ''a yellow fruit''\<rparr>]"
    by (simp add: indexMatches_def toLowerCase_def lowerChar_def Let_def)
next
  show "indexMatches
     [\<lparr>author = ''al'', entry = ''apple'', definitionText = ''a red fruit''\<rparr>,
      \<lparr>author = ''bo'', entry = ''banana'', definitionText = ''a yellow fruit''\<rparr>]
     ''zzz'' = []"
    by (simp add: indexMatches_def toLowerCase_def lowerChar_def Let_def)
next
  show "handleIndexCommand \<lparr>options = [''zzz''], username = ''cy''\<rparr>
     \<lparr>dictData =
        [\<lparr>author = ''al'', entry = ''apple'', definitionText = ''a red fruit''\<rparr>,
         \<lparr>author = ''bo'', entry = ''banana'', definitionText = ''a yellow fruit''\<rparr>],
      flushed = []\<rparr> =
     Reply ''Search string zzz not found in entries.''"
    by (simp add: handleIndexCommand_def indexMatches_def indexOutput_def toLowerCase_def
        lowerChar_def trim_eval Let_def)
qed

lemma char_eq_char_of_iff: "c = char_of n \<longleftrightarrow> take_bit 8 n = (of_char c :: nat)"
  using char_of_eq_iff [of n c] by auto

lemmas lower_eval = toLowerCase_def lowerChar_def char_of_eq_iff char_eq_char_of_iff

theorem index_search_witness:
  "options \<lparr>options = ['' Fruit  ''], username = ''cy''\<rparr> \<noteq> [] \<and>
   handleIndexCommand \<lparr>options = ['' Fruit  ''], username = ''cy''\<rparr>
     \<lparr>dictData =
        [\<lparr>author = ''al'', entry = ''apple'', definitionText = ''a red fruit''\<rparr>,
         \<lparr>author = ''bo'', entry = ''banana'', definitionText = ''a yellow Fruit''\<rparr>,
         \<lparr>author = ''cy'', entry = ''carrot'', definitionText = ''a root''\<rparr>],
      flushed = []\<rparr> =
     Reply (''Search string fruit found in entries: '' @ [CHR 0x22] @ ''apple'' @ [CHR 0x22]
            @ '', '' @ [CHR 0x22] @ ''banana'' @ [CHR 0x22])"
proof -
  let ?i = "\<lparr>options = ['' Fruit  ''], username = ''cy''\<rparr>"
  let ?st = "\<lparr>dictData =
        [\<lparr>author = ''al'', entry = ''apple'', definitionText = ''a red fruit''\<rparr>,
         \<lparr>author = ''bo'', entry = ''banana'', definitionText = ''a yellow Fruit''\<rparr>,
         \<lparr>author = ''cy'', entry = ''carrot'', definitionText = ''a root''\<rparr>],
      flushed = []\<rparr>"
  have o: "options ?i \<noteq> []" by simp
  have s: "toLowerCase (trim (options ?i ! 0)) = ''fruit''"
    by (simp add: lower_eval trim_eval Let_def)
  note T = conjunct1 [OF mp [OF conjunct1 [OF index_search [where i = ?i and st = ?st]] o]]
  have "indexOutput (indexMatches (dictData ?st) ''fruit'') ''fruit'' =
     ''Search string fruit found in entries: '' @ [CHR 0x22] @ ''apple'' @ [CHR 0x22]
            @ '', '' @ [CHR 0x22] @ ''banana'' @ [CHR 0x22]"
    by (simp add: indexMatches_def indexOutput_def lower_eval Let_def upt_rec)
  with T [unfolded s] o show ?thesis by simp
qed

lemma trimStart_pad:
  "list_all isWhiteSpace ws \<Longrightarrow> trimStart (ws @ s) = trimStart s"
  by (simp add: trimStart_def dropWhile_append2 list_all_iff)

lemma trimEnd_pad:
  assumes "list_all isWhiteSpace ws"
  shows "trimEnd (s @ ws) = trimEnd s"
proof -
  have "dropWhile isWhiteSpace (rev ws @ rev s) = dropWhile isWhiteSpace (rev s)"
    by (rule dropWhile_append2) (use assms in \<open>simp add: list_all_iff\<close>)
  then show ?thesis by (simp add: trimEnd_def)
qed

lemma trimStart_append:
  "trimStart s \<noteq> [] \<Longrightarrow> trimStart (s @ t) = trimStart s @ t"
  by (induction s) (auto simp add: trimStart_def)

lemma trimStart_all_white:
  "trimStart s = [] \<Longrightarrow> list_all isWhiteSpace s"
  by (induction s) (auto simp add: trimStart_def split: if_splits)

lemma trimStart_white: "list_all isWhiteSpace s \<Longrightarrow> trimStart s = []"
  by (induction s) (auto simp add: trimStart_def)

lemma trimEnd_Nil: "trimEnd [] = []"
  by (simp add: trimEnd_def)

lemma trim_pad:
  assumes "list_all isWhiteSpace ws1" "list_all isWhiteSpace ws2"
  shows "trim (ws1 @ x @ ws2) = trim x"
proof (cases "trimStart x = []")
  case True
  then have "list_all isWhiteSpace (x @ ws2)"
    using trimStart_all_white [of x] assms(2) by simp
  then have "trimStart (x @ ws2) = []" by (rule trimStart_white)
  with True show ?thesis by (simp add: trim_def trimStart_pad [OF assms(1)])
next
  case False
  then show ?thesis
    by (simp add: trim_def trimStart_pad [OF assms(1)] trimStart_append trimEnd_pad [OF assms(2)])
qed

lemma trimEnd_no_trailing:
  "trimEnd s \<noteq> [] \<Longrightarrow> \<not> isWhiteSpace (last (trimEnd s))"
proof -
  assume a: "trimEnd s \<noteq> []"
  then have "dropWhile isWhiteSpace (rev s) \<noteq> []" by (simp add: trimEnd_def)
  then have "\<not> isWhiteSpace (hd (dropWhile isWhiteSpace (rev s)))" by (rule hd_dropWhile)
  moreover have "last (trimEnd s) = hd (dropWhile isWhiteSpace (rev s))"
    by (simp add: trimEnd_def last_rev)
  ultimately show ?thesis by simp
qed

lemma trimStart_no_leading:
  "trimStart s \<noteq> [] \<Longrightarrow> \<not> isWhiteSpace (hd (trimStart s))"
  unfolding trimStart_def by (rule hd_dropWhile)

lemma trimEnd_hd:
  "s \<noteq> [] \<Longrightarrow> \<not> isWhiteSpace (hd s) \<Longrightarrow> trimEnd s \<noteq> [] \<and> hd (trimEnd s) = hd s"
proof (induction s rule: rev_induct)
  case Nil
  then show ?case by simp
next
  case (snoc c s)
  show ?case
  proof (cases "isWhiteSpace c")
    case False
    then have "trimEnd (s @ [c]) = s @ [c]" by (simp add: trimEnd_def)
    then show ?thesis by simp
  next
    case True
    then have e: "trimEnd (s @ [c]) = trimEnd s" by (simp add: trimEnd_def)
    from True snoc.prems have "s \<noteq> []" by (cases s) auto
    moreover from this snoc.prems have "\<not> isWhiteSpace (hd s)" by simp
    ultimately show ?thesis using snoc.IH e \<open>s \<noteq> []\<close> by simp
  qed
qed

lemma trim_ends:
  assumes "trim x \<noteq> []"
  shows "\<not> isWhiteSpace (hd (trim x)) \<and> \<not> isWhiteSpace (last (trim x))"
proof -
  from assms have ts: "trimStart x \<noteq> []" by (auto simp add: trim_def trimEnd_Nil)
  from trimEnd_hd [OF ts trimStart_no_leading [OF ts]]
  have "hd (trim x) = hd (trimStart x)" by (simp add: trim_def)
  with trimStart_no_leading [OF ts] have "\<not> isWhiteSpace (hd (trim x))" by simp
  moreover have "\<not> isWhiteSpace (last (trim x))"
    using assms trimEnd_no_trailing [of "trimStart x"] by (simp add: trim_def)
  ultimately show ?thesis by simp
qed

lemma trim_idem: "trim (trim x) = trim x"
proof (cases "trim x = []")
  case True
  show ?thesis unfolding True by (simp add: trim_def trimStart_def trimEnd_def)
next
  case False
  from trim_ends [OF False] have h: "\<not> isWhiteSpace (hd (trim x))"
    and l: "\<not> isWhiteSpace (last (trim x))" by simp_all
  from False h have "trimStart (trim x) = trim x"
    by (cases "trim x") (simp_all add: trimStart_def)
  moreover from False l have "trimEnd (trim x) = trim x"
    by (cases "trim x" rule: rev_cases) (simp_all add: trimEnd_def)
  ultimately show ?thesis by (simp add: trim_def [of "trim x"])
qed

text \<open>
  C9. Each handler trims the option values before it uses them. White space added around
  a value (before and after it) changes nothing: \<open>/dict\<close>, \<open>/define\<close> and \<open>/index\<close> give
  the same result, and for \<open>/define\<close> the same new state, as on the value itself. The
  trimmed text neither starts nor ends with white space, and trimming it again changes
  nothing. A define that inserts stores the trimmed phrase as the entry name and the
  trimmed definition; \<open>/index\<close> also lowercases the trimmed search string (C7).
\<close>

theorem handlers_trim_input:
  assumes w1: "list_all isWhiteSpace ws1" and w2: "list_all isWhiteSpace ws2"
    and w3: "list_all isWhiteSpace ws3" and w4: "list_all isWhiteSpace ws4"
  shows "handleDictCommand lc (i\<lparr>options := (ws1 @ x @ ws2) # rest\<rparr>) st =
       handleDictCommand lc (i\<lparr>options := x # rest\<rparr>) st \<and>
     handleDefineCommand lc (i\<lparr>options := (ws1 @ x @ ws2) # (ws3 @ d @ ws4) # rest\<rparr>) st =
       handleDefineCommand lc (i\<lparr>options := x # d # rest\<rparr>) st \<and>
     handleIndexCommand (i\<lparr>options := (ws1 @ x @ ws2) # rest\<rparr>) st =
       handleIndexCommand (i\<lparr>options := x # rest\<rparr>) st \<and>
     trim (ws1 @ x @ ws2) = trim x \<and>
     trim (trim x) = trim x \<and>
     (trim x = [] \<or> \<not> (isWhiteSpace (hd (trim x)) \<or> isWhiteSpace (last (trim x)))) \<and>
     (findDictionaryEntry lc (dictData st) (trim x) = None \<longrightarrow>
        \<lparr>author = username i, entry = trim x, definitionText = trim d\<rparr>
          \<in> set (dictData (snd (handleDefineCommand lc
                (i\<lparr>options := (ws1 @ x @ ws2) # (ws3 @ d @ ws4) # rest\<rparr>) st))))"
proof (intro conjI impI)
  note tx = trim_pad [OF w1 w2, of x] and td = trim_pad [OF w3 w4, of d]
  show "handleDictCommand lc (i\<lparr>options := (ws1 @ x @ ws2) # rest\<rparr>) st =
       handleDictCommand lc (i\<lparr>options := x # rest\<rparr>) st"
    by (simp add: handleDictCommand_def tx)
  show def: "handleDefineCommand lc (i\<lparr>options := (ws1 @ x @ ws2) # (ws3 @ d @ ws4) # rest\<rparr>) st =
       handleDefineCommand lc (i\<lparr>options := x # d # rest\<rparr>) st"
    by (simp add: handleDefineCommand_def tx td)
  show "handleIndexCommand (i\<lparr>options := (ws1 @ x @ ws2) # rest\<rparr>) st =
       handleIndexCommand (i\<lparr>options := x # rest\<rparr>) st"
    by (simp add: handleIndexCommand_def tx)
  show "trim (ws1 @ x @ ws2) = trim x" by (rule tx)
  show "trim (trim x) = trim x" by (rule trim_idem)
  show "trim x = [] \<or> \<not> (isWhiteSpace (hd (trim x)) \<or> isWhiteSpace (last (trim x)))"
    using trim_ends [of x] by blast
  assume n: "findDictionaryEntry lc (dictData st) (trim x) = None"
  let ?i = "i\<lparr>options := x # d # rest\<rparr>"
  have l: "2 \<le> length (options ?i)" by simp
  have n': "findDictionaryEntry lc (dictData st) (trim (options ?i ! 0)) = None"
    using n by simp
  have "dictData (snd (handleDefineCommand lc ?i st)) =
      arraySort (entryCompare lc) (dictData st @
        [\<lparr>author = username i, entry = trim x, definitionText = trim d\<rparr>])"
    unfolding handleDefineCommand_absent [OF l n']
    by (simp add: flushDictData_def sortDictData_def)
  then show "\<lparr>author = username i, entry = trim x, definitionText = trim d\<rparr>
          \<in> set (dictData (snd (handleDefineCommand lc
                (i\<lparr>options := (ws1 @ x @ ws2) # (ws3 @ d @ ws4) # rest\<rparr>) st)))"
    unfolding def by (simp add: set_arraySort)
qed

theorem handlers_trim_input_witness:
  "list_all isWhiteSpace ''  '' \<and> list_all isWhiteSpace [CHR 0x09] \<and>
   list_all isWhiteSpace '' '' \<and> list_all isWhiteSpace [CHR 0x0A] \<and>
   findDictionaryEntry latinCompare [] (trim ''x'') = None \<and>
   trim (''  '' @ ''x'' @ [CHR 0x09]) = ''x'' \<and>
   handleDefineCommand latinCompare
     \<lparr>options = [''  '' @ ''x'' @ [CHR 0x09], '' '' @ ''a letter'' @ [CHR 0x0A]],
      username = ''cy''\<rparr> \<lparr>dictData = [], flushed = []\<rparr> =
     (Reply ''**DICT:** Definition for x added successfully.'',
      \<lparr>dictData = [\<lparr>author = ''cy'', entry = ''x'', definitionText = ''a letter''\<rparr>],
        flushed = [[\<lparr>author = ''cy'', entry = ''x'', definitionText = ''a letter''\<rparr>]]\<rparr>)"
proof -
  have w1: "list_all isWhiteSpace ''  ''" and w2: "list_all isWhiteSpace [CHR 0x09]"
    and w3: "list_all isWhiteSpace '' ''" and w4: "list_all isWhiteSpace [CHR 0x0A]"
    by (simp_all add: isWhiteSpace_def)
  have t: "trim ''x'' = ''x''" by (simp add: trim_eval)
  have n: "findDictionaryEntry latinCompare [] (trim ''x'') = None"
    by (rule findDictionaryEntry_Nil)
  note T = handlers_trim_input [OF w1 w2 w3 w4, where lc = latinCompare and x = "''x''"
      and d = "''a letter''" and rest = "[]"
      and i = "\<lparr>options = [], username = ''cy''\<rparr>"
      and st = "\<lparr>dictData = [], flushed = []\<rparr>"]
  have a: "trim (''  '' @ ''x'' @ [CHR 0x09]) = ''x''"
    using conjunct1 [OF conjunct2 [OF conjunct2 [OF conjunct2 [OF T]]]] t by simp
  have "handleDefineCommand latinCompare \<lparr>options = [''x'', ''a letter''], username = ''cy''\<rparr>
      \<lparr>dictData = [], flushed = []\<rparr> =
     (Reply ''**DICT:** Definition for x added successfully.'',
      \<lparr>dictData = [\<lparr>author = ''cy'', entry = ''x'', definitionText = ''a letter''\<rparr>],
        flushed = [[\<lparr>author = ''cy'', entry = ''x'', definitionText = ''a letter''\<rparr>]]\<rparr>)"
    by (simp add: handler_eval trim_eval Let_def)
  then have b: "handleDefineCommand latinCompare
     \<lparr>options = [''  '' @ ''x'' @ [CHR 0x09], '' '' @ ''a letter'' @ [CHR 0x0A]],
      username = ''cy''\<rparr> \<lparr>dictData = [], flushed = []\<rparr> =
     (Reply ''**DICT:** Definition for x added successfully.'',
      \<lparr>dictData = [\<lparr>author = ''cy'', entry = ''x'', definitionText = ''a letter''\<rparr>],
        flushed = [[\<lparr>author = ''cy'', entry = ''x'', definitionText = ''a letter''\<rparr>]]\<rparr>)"
    using conjunct1 [OF conjunct2 [OF T]] by simp
  from w1 w2 w3 w4 n a b show ?thesis by blast
qed

end
